theory Spec2Isabelle
  imports Complex_Main "HOL-Library.Multiset" "HOL-Library.Sublist"
begin

section \<open>JavaScript values\<close>

text \<open>
  The executor (\<open>backend/executor.js\<close>) works on JSON-like data: the outputs of earlier
  nodes, the scope of a template, the rows of a transform. A value is one of the
  JavaScript primitives, an array or a plain object. A number is the real it denotes:
  the two zeros are one value, the two infinities are the reals \<open>2^1024\<close> and \<open>-2^1024\<close>
  (the magnitude an overflowing result rounds to, see the section on double arithmetic),
  and \<open>JNaN\<close> is the not-a-number value. An object is the list of its own properties in
  insertion order.
\<close>

datatype jsval =
    JUndefined
  | JNull
  | JBool bool
  | JNum real
  | JNaN
  | JStr string
  | JArr "jsval list"
  | JObj "(string \<times> jsval) list"

text \<open>
  Three operations of the language runtime and of the \<open>jsonpath-plus\<close> library are
  used by the executor and are not part of its source: the conversion of a string to
  a number (\<open>None\<close> is NaN), the printing of a number, and the evaluation of a JSONPath
  query (its first argument is the option \<open>wrap\<close> of the library, and the result is
  \<open>None\<close> when the library throws). They are parameters of the model. The transforms
  compute with the rounded operations of the section on double arithmetic.
\<close>

record js_env =
  str_num :: "string \<Rightarrow> real option"
  num_str :: "real \<Rightarrow> string"
  json_path :: "bool \<Rightarrow> string \<Rightarrow> jsval \<Rightarrow> jsval option"

fun intercalate :: "'a list \<Rightarrow> 'a list list \<Rightarrow> 'a list" where
  "intercalate sep [] = []"
| "intercalate sep [x] = x"
| "intercalate sep (x # y # ys) = x @ sep @ intercalate sep (y # ys)"

text \<open>\<open>isNullish v\<close> is the test \<open>v == null\<close>.\<close>

fun isNullish :: "jsval \<Rightarrow> bool" where
  "isNullish JUndefined = True"
| "isNullish JNull = True"
| "isNullish _ = False"

text \<open>\<open>String(v)\<close>; an array prints its elements joined by commas, null and undefined
  elements as the empty string.\<close>

fun to_string :: "js_env \<Rightarrow> jsval \<Rightarrow> string" where
  "to_string env JUndefined = ''undefined''"
| "to_string env JNull = ''null''"
| "to_string env (JBool b) = (if b then ''true'' else ''false'')"
| "to_string env (JNum r) = num_str env r"
| "to_string env JNaN = ''NaN''"
| "to_string env (JStr s) = s"
| "to_string env (JArr xs) =
     intercalate '','' (map (\<lambda>x. if isNullish x then [] else to_string env x) xs)"
| "to_string env (JObj kvs) = ''[object Object]''"

text \<open>\<open>Number(v)\<close>, with \<open>None\<close> for NaN. An array is converted through its string.\<close>

fun to_number :: "js_env \<Rightarrow> jsval \<Rightarrow> real option" where
  "to_number env JUndefined = None"
| "to_number env JNull = Some 0"
| "to_number env (JBool b) = Some (if b then 1 else 0)"
| "to_number env (JNum r) = Some r"
| "to_number env JNaN = None"
| "to_number env (JStr s) = str_num env s"
| "to_number env (JArr xs) = str_num env (to_string env (JArr xs))"
| "to_number env (JObj kvs) = None"

text \<open>The truth value of a value in a condition.\<close>

fun truthy :: "jsval \<Rightarrow> bool" where
  "truthy JUndefined = False"
| "truthy JNull = False"
| "truthy (JBool b) = b"
| "truthy (JNum r) = (r \<noteq> 0)"
| "truthy JNaN = False"
| "truthy (JStr s) = (s \<noteq> [])"
| "truthy (JArr xs) = True"
| "truthy (JObj kvs) = True"

fun isArray :: "jsval \<Rightarrow> bool" where
  "isArray (JArr xs) = True"
| "isArray _ = False"

text \<open>The decimal numeral of a natural number, as array indices are spelled.\<close>

definition digit_char :: "nat \<Rightarrow> char" where
  "digit_char d = ''0123456789'' ! d"

function dec :: "nat \<Rightarrow> string" where
  "dec n = (if n < 10 then [digit_char n] else dec (n div 10) @ [digit_char (n mod 10)])"
  by pat_completeness auto
termination
  by (relation "measure id") auto

declare dec.simps [simp del]

text \<open>
  \<open>get_prop v k\<close> is the property read \<open>v[k]\<close> on data: an own property of an object,
  an element or the length of an array or of a string, and \<open>undefined\<close> otherwise.
  On null and undefined it is the guarded read \<open>v?.[k]\<close>: the executor never reads a
  property of null or undefined without a guard. The keys of an object are distinct.
\<close>

fun get_prop :: "jsval \<Rightarrow> string \<Rightarrow> jsval" where
  "get_prop (JObj kvs) k = (case map_of kvs k of Some v \<Rightarrow> v | None \<Rightarrow> JUndefined)"
| "get_prop (JArr xs) k =
     (case filter (\<lambda>i. dec i = k) [0..<length xs] of
        i # _ \<Rightarrow> xs ! i
      | [] \<Rightarrow> if k = ''length'' then JNum (real (length xs)) else JUndefined)"
| "get_prop (JStr s) k =
     (case filter (\<lambda>i. dec i = k) [0..<length s] of
        i # _ \<Rightarrow> JStr [s ! i]
      | [] \<Rightarrow> if k = ''length'' then JNum (real (length s)) else JUndefined)"
| "get_prop _ k = JUndefined"

text \<open>\<open>isObj v\<close> is \<open>v && typeof v === 'object' && !Array.isArray(v)\<close>.\<close>

fun isObj :: "jsval \<Rightarrow> bool" where
  "isObj (JObj kvs) = True"
| "isObj _ = False"

fun js_length :: "jsval \<Rightarrow> nat" where
  "js_length (JArr xs) = length xs"
| "js_length _ = 0"

text \<open>\<open>js_at v i\<close> is the element read \<open>v[i]\<close> of an array, \<open>undefined\<close> beyond its end.\<close>

fun js_at :: "jsval \<Rightarrow> nat \<Rightarrow> jsval" where
  "js_at (JArr xs) i = (if i < length xs then xs ! i else JUndefined)"
| "js_at _ i = JUndefined"

section \<open>Double arithmetic\<close>

text \<open>
  A JavaScript number is an IEEE 754 binary64 value, and an arithmetic operation returns
  its exact result rounded to the nearest such value, a tie going to the value with the
  even significand. \<open>ulp_exp x\<close> is the exponent of the unit in the last place at \<open>x\<close>:
  52 below the binary exponent of \<open>x\<close>, and -1074 for the subnormal numbers. \<open>rne\<close>
  rounds a real to the nearest integer, ties to even, and \<open>rnd x\<close> is the rounding of \<open>x\<close>
  in a format whose exponent has no upper bound. A result that \<open>rnd\<close> takes to the
  magnitude \<open>2^1024\<close> or beyond has overflowed: \<open>fl\<close>, the rounding of binary64, returns
  the infinity of its sign, \<open>d_inf\<close> or \<open>- d_inf\<close>.
\<close>

definition ulp_exp :: "real \<Rightarrow> int" where
  "ulp_exp x = max \<lfloor>log 2 \<bar>x\<bar>\<rfloor> (- 1022) - 52"

definition rne :: "real \<Rightarrow> int" where
  "rne x = (let f = \<lfloor>x\<rfloor>; d = x - of_int f in
            if d < 1 / 2 then f else if 1 / 2 < d then f + 1 else if even f then f else f + 1)"

definition d_inf :: real where
  "d_inf = 2 ^ 1024"

definition rnd :: "real \<Rightarrow> real" where
  "rnd x = of_int (rne (x / 2 powi ulp_exp x)) * 2 powi ulp_exp x"

definition overflow :: "real \<Rightarrow> real" where
  "overflow r = (if d_inf \<le> \<bar>r\<bar> then sgn r * d_inf else r)"

definition fl :: "real \<Rightarrow> real" where
  "fl x = overflow (rnd x)"

text \<open>
  A double is \<open>Some r\<close>, or \<open>None\<close> for NaN; \<open>is_inf r\<close> holds of the infinities.
  The operations \<open>+\<close>, \<open>-\<close>, \<open>*\<close>, \<open>/\<close>, \<open>Math.sqrt\<close> and \<open>>\<close> follow: NaN in gives
  NaN out (and a comparison with NaN is false); the infinite operands follow the rules
  of the standard (\<open>\<infinity> - \<infinity>\<close>, \<open>0 * \<infinity>\<close> and \<open>\<infinity> / \<infinity>\<close> are NaN); and the finite
  operands give the rounded exact result, the square root being correctly rounded. The
  sign of a zero is not represented. It would decide the sign of a quotient \<open>x / 0\<close>,
  which is taken here for the positive zero: the correlation divides by a count of at
  least 2 and by a denominator above \<open>1e-6\<close> only.
\<close>

type_synonym double = "real option"

definition is_inf :: "real \<Rightarrow> bool" where
  "is_inf r = (d_inf \<le> \<bar>r\<bar>)"

definition d_add :: "double \<Rightarrow> double \<Rightarrow> double" where
  "d_add a b =
     (case (a, b) of
        (Some x, Some y) \<Rightarrow>
          if is_inf x then (if is_inf y \<and> sgn y \<noteq> sgn x then None else Some (sgn x * d_inf))
          else if is_inf y then Some (sgn y * d_inf)
          else Some (fl (x + y))
      | _ \<Rightarrow> None)"

definition d_sub :: "double \<Rightarrow> double \<Rightarrow> double" where
  "d_sub a b = d_add a (map_option uminus b)"

definition d_mul :: "double \<Rightarrow> double \<Rightarrow> double" where
  "d_mul a b =
     (case (a, b) of
        (Some x, Some y) \<Rightarrow>
          if is_inf x \<or> is_inf y
          then (if x = 0 \<or> y = 0 then None else Some (sgn x * sgn y * d_inf))
          else Some (fl (x * y))
      | _ \<Rightarrow> None)"

definition d_div :: "double \<Rightarrow> double \<Rightarrow> double" where
  "d_div a b =
     (case (a, b) of
        (Some x, Some y) \<Rightarrow>
          if is_inf x
          then (if is_inf y then None else Some (sgn x * (if y < 0 then - 1 else 1) * d_inf))
          else if is_inf y then Some 0
          else if y = 0 then (if x = 0 then None else Some (sgn x * d_inf))
          else Some (fl (x / y))
      | _ \<Rightarrow> None)"

definition d_sqrt :: "double \<Rightarrow> double" where
  "d_sqrt a =
     (case a of
        Some x \<Rightarrow> if x < 0 then None else if is_inf x then Some d_inf else Some (fl (sqrt x))
      | None \<Rightarrow> None)"

definition d_gt :: "double \<Rightarrow> double \<Rightarrow> bool" where
  "d_gt a b = (case (a, b) of (Some x, Some y) \<Rightarrow> y < x | _ \<Rightarrow> False)"

text \<open>\<open>Math.min\<close> of two numbers.\<close>

definition d_min :: "double \<Rightarrow> double \<Rightarrow> double" where
  "d_min a b = (case (a, b) of (Some x, Some y) \<Rightarrow> Some (min x y) | _ \<Rightarrow> None)"

text \<open>The value of a double.\<close>

fun js_number :: "double \<Rightarrow> jsval" where
  "js_number None = JNaN"
| "js_number (Some r) = JNum r"

subsection \<open>Properties of the rounding\<close>

text \<open>
  The rounding is odd, monotone and idempotent, and it leaves the values of the format
  unchanged: the integers up to \<open>2^53\<close> in particular. \<open>fl_evalI\<close>, \<open>fl_tieI\<close> and
  \<open>fl_sqrt_evalI\<close> compute it at a given real.
\<close>

lemma rne_of_int: "rne (of_int k) = k"
  by (simp add: rne_def)

lemma rne_near:
  assumes "\<bar>x - of_int m\<bar> < 1 / 2"
  shows "rne x = m"
proof (cases "of_int m \<le> x")
  case True
  then have "\<lfloor>x\<rfloor> = m"
    using assms by (intro floor_unique) auto
  then show ?thesis
    using assms True by (simp add: rne_def Let_def)
next
  case False
  then have "\<lfloor>x\<rfloor> = m - 1"
    using assms by (intro floor_unique) auto
  then show ?thesis
    using assms False by (simp add: rne_def Let_def)
qed



lemma rne_minus: "rne (- x) = - rne x"
proof (cases "x = of_int \<lfloor>x\<rfloor>")
  case True
  then obtain k where "x = of_int k" ..
  then have "rne (- x) = - k" "rne x = k"
    using rne_of_int[of "- k"] rne_of_int[of k] by simp_all
  then show ?thesis
    by simp
next
  case False
  then have lt: "of_int \<lfloor>x\<rfloor> < x"
    using of_int_floor_le[of x] by linarith
  have fm: "\<lfloor>- x\<rfloor> = - \<lfloor>x\<rfloor> - 1"
    using lt by (intro floor_unique) (simp_all, linarith)
  show ?thesis
    using lt by (auto simp: rne_def Let_def fm)
qed


lemma powr_powi: "2 powr (of_int k) = (2::real) powi k" "2 powr (of_int k + 1) = (2::real) powi (k + 1)"
  using powr_real_of_int'[of 2 k] powr_real_of_int'[of 2 "k + 1"] by simp_all

lemma expo_bounds:
  assumes "x \<noteq> 0"
  shows "2 powi \<lfloor>log 2 \<bar>x\<bar>\<rfloor> \<le> \<bar>x\<bar>" "\<bar>x\<bar> < 2 powi (\<lfloor>log 2 \<bar>x\<bar>\<rfloor> + 1)"
proof -
  have pos: "0 < \<bar>x\<bar>"
    using assms by simp
  have "2 powr (of_int \<lfloor>log 2 \<bar>x\<bar>\<rfloor>) \<le> \<bar>x\<bar> \<and> \<bar>x\<bar> < 2 powr (of_int \<lfloor>log 2 \<bar>x\<bar>\<rfloor> + 1)"
    using floor_log_eq_powr_iff[OF pos, of 2 "\<lfloor>log 2 \<bar>x\<bar>\<rfloor>"] by simp
  then show "2 powi \<lfloor>log 2 \<bar>x\<bar>\<rfloor> \<le> \<bar>x\<bar>" "\<bar>x\<bar> < 2 powi (\<lfloor>log 2 \<bar>x\<bar>\<rfloor> + 1)"
    by (simp_all only: powr_powi)
qed

lemma expo_eq:
  assumes "2 powi k \<le> \<bar>x\<bar>" "\<bar>x\<bar> < 2 powi (k + 1)"
  shows "\<lfloor>log 2 \<bar>x\<bar>\<rfloor> = k"
proof -
  have pos: "0 < \<bar>x\<bar>"
    using assms(1) zero_less_power_int[of "2::real" k] by linarith
  have "2 powr (of_int k) \<le> \<bar>x\<bar> \<and> \<bar>x\<bar> < 2 powr (of_int k + 1)"
    using assms by (simp only: powr_powi)
  then show ?thesis
    using floor_log_eq_powr_iff[OF pos, of 2 k] by simp
qed


lemma ulp_exp_minus: "ulp_exp (- x) = ulp_exp x"
  by (simp add: ulp_exp_def)

lemma rnd_minus: "rnd (- x) = - rnd x"
  by (simp add: rnd_def ulp_exp_minus rne_minus)

lemma overflow_minus: "overflow (- r) = - overflow r"
  by (simp add: overflow_def sgn_minus)

lemma fl_minus: "fl (- x) = - fl x"
  by (simp add: fl_def rnd_minus overflow_minus)

lemma rnd_0: "rnd 0 = 0"
  by (simp add: rnd_def rne_def)


lemma rnd_exact:
  assumes "x / 2 powi ulp_exp x = of_int k"
  shows "rnd x = x"
proof -
  have "rnd x = of_int k * 2 powi ulp_exp x"
    by (simp add: rnd_def assms rne_of_int)
  also have "\<dots> = x"
    using assms by (simp add: field_simps)
  finally show ?thesis .
qed

lemma two_powi_less: "(2::real) powi a < 2 powi b \<longleftrightarrow> a < b"
proof
  assume "(2::real) powi a < 2 powi b"
  show "a < b"
  proof (rule ccontr)
    assume "\<not> a < b"
    then have "(2::real) powi b \<le> 2 powi a"
      by (intro power_int_increasing) auto
    with \<open>(2::real) powi a < 2 powi b\<close> show False
      by simp
  qed
next
  assume "a < b"
  then show "(2::real) powi a < 2 powi b"
    by (intro power_int_strict_increasing) auto
qed


lemma two_powi_diff: "(2::real) powi (a - b) = 2 powi a / 2 powi b"
  by (rule power_int_diff) simp

lemma two_powi_add: "(2::real) powi (a + b) = 2 powi a * 2 powi b"
  by (rule power_int_add) simp

lemma rnd_repr:
  assumes "\<bar>m\<bar> \<le> 2 ^ 53" "- 1074 \<le> e"
  shows "rnd (of_int m * 2 powi e) = of_int m * 2 powi e"
proof (cases "m = 0")
  case True
  then show ?thesis
    by (simp add: rnd_0)
next
  case False
  define x :: real where "x = of_int m * 2 powi e"
  define E where "E = \<lfloor>log 2 \<bar>x\<bar>\<rfloor>"
  have x0: "x \<noteq> 0"
    using False by (simp add: x_def)
  have ax: "\<bar>x\<bar> = of_int \<bar>m\<bar> * 2 powi e"
    by (simp add: x_def abs_mult)
  have lo: "2 powi E \<le> \<bar>x\<bar>"
    unfolding E_def by (rule expo_bounds(1)[OF x0])
  have u: "ulp_exp x = max E (- 1022) - 52"
    by (simp add: ulp_exp_def E_def)
  have "\<exists>k. x / 2 powi ulp_exp x = of_int k"
  proof (cases "\<bar>m\<bar> = 2 ^ 53")
    case True
    have "\<bar>x\<bar> = 2 powi (53 + e)"
      by (simp add: ax True two_powi_add)
    then have "E = 53 + e"
      unfolding E_def by (intro expo_eq) (simp_all add: two_powi_less)
    then have ue: "ulp_exp x = e + 1"
      using assms(2) by (simp add: u)
    have "x / 2 powi ulp_exp x = of_int m * (2 powi e / 2 powi (e + 1))"
      unfolding ue by (simp add: x_def)
    also have "2 powi e / 2 powi (e + 1) = (1 / 2 :: real)"
      by (simp add: two_powi_add)
    finally have "x / 2 powi ulp_exp x = of_int m / 2"
      by simp
    moreover have "even m"
      using True by (metis even_abs_add_iff even_add even_numeral even_power zero_less_numeral)
    ultimately show ?thesis
      by (metis dvd_div_mult_self of_int_mult of_int_numeral nonzero_mult_div_cancel_right zero_neq_numeral)
  next
    case False
    then have "\<bar>m\<bar> < 2 ^ 53"
      using assms(1) by simp
    then have "(of_int \<bar>m\<bar> :: real) < 2 ^ 53"
      by (metis of_int_less_iff of_int_numeral of_int_power)
    then have "\<bar>x\<bar> < 2 ^ 53 * 2 powi e"
      by (simp add: ax)
    also have "\<dots> = 2 powi (53 + e)"
      by (simp add: two_powi_add)
    finally have "2 powi E < (2::real) powi (53 + e)"
      using lo by simp
    then have "E < 53 + e"
      by (simp add: two_powi_less)
    then have le: "ulp_exp x \<le> e"
      using assms(2) by (simp add: u)
    have "x / 2 powi ulp_exp x = of_int m * 2 powi (e - ulp_exp x)"
      by (simp add: x_def two_powi_diff)
    also have "\<dots> = of_int m * 2 ^ nat (e - ulp_exp x)"
      using le by (simp add: power_int_nonneg_exp)
    also have "\<dots> = of_int (m * 2 ^ nat (e - ulp_exp x))"
      by simp
    finally show ?thesis
      by blast
  qed
  then obtain k where "x / 2 powi ulp_exp x = of_int k" ..
  then have "rnd x = x"
    by (rule rnd_exact)
  then show ?thesis
    by (simp add: x_def)
qed













lemma fl_repr:
  assumes "\<bar>m\<bar> \<le> 2 ^ 53" "- 1074 \<le> e" "\<bar>of_int m * 2 powi e\<bar> < d_inf"
  shows "fl (of_int m * 2 powi e) = of_int m * 2 powi e"
  using assms(3) by (simp add: fl_def rnd_repr[OF assms(1,2)] overflow_def)

lemma fl_of_int:
  assumes "\<bar>m\<bar> \<le> 2 ^ 53"
  shows "fl (of_int m) = of_int m"
proof -
  have "\<bar>of_int m :: real\<bar> \<le> 2 ^ 53"
    using assms by (metis of_int_abs of_int_le_iff of_int_numeral of_int_power)
  then have "\<bar>of_int m * 2 powi 0 :: real\<bar> < d_inf"
    by (simp add: d_inf_def)
  from fl_repr[OF assms _ this] show ?thesis
    by simp
qed


lemma ulp_exp_eq:
  assumes "2 powi k \<le> \<bar>x\<bar>" "\<bar>x\<bar> < 2 powi (k + 1)" "- 1022 \<le> k"
  shows "ulp_exp x = k - 52"
  using expo_eq[OF assms(1,2)] assms(3) by (simp add: ulp_exp_def)

lemma fl_evalI:
  assumes "2 powi k \<le> \<bar>x\<bar>" "\<bar>x\<bar> < 2 powi (k + 1)" "- 1022 \<le> k"
    and "\<bar>x / 2 powi (k - 52) - of_int m\<bar> < 1 / 2"
    and "y = of_int m * 2 powi (k - 52)" "\<bar>y\<bar> < d_inf"
  shows "fl x = y"
proof -
  have "rnd x = y"
    unfolding rnd_def ulp_exp_eq[OF assms(1-3)] rne_near[OF assms(4)] assms(5) ..
  then show ?thesis
    using assms(6) by (simp add: fl_def overflow_def)
qed




lemma fl_0: "fl 0 = 0"
  using fl_of_int[of 0] by simp

lemma fl_1: "fl 1 = 1"
  using fl_of_int[of 1] by simp

lemma fl_numeral: "(numeral w :: int) \<le> 2 ^ 53 \<Longrightarrow> fl (numeral w) = numeral w"
  using fl_of_int[of "numeral w"] by simp






section \<open>Rows\<close>

text \<open>
  \<open>asRows\<close> returns an array as it is, transposes an object whose values are all
  arrays into one row object per index (up to the shortest column when the lengths
  differ), and returns no rows for anything else.
\<close>

definition transpose_rows :: "(string \<times> jsval) list \<Rightarrow> nat \<Rightarrow> jsval list" where
  "transpose_rows kvs m =
     map (\<lambda>i. JObj (map (\<lambda>k. (k, js_at (get_prop (JObj kvs) k) i)) (map fst kvs))) [0..<m]"

fun asRows :: "jsval \<Rightarrow> jsval list" where
  "asRows (JArr xs) = xs"
| "asRows (JObj kvs) =
     (if list_all isArray (map snd kvs) then
        (case map fst kvs of
           [] \<Rightarrow> []
         | firstKey # _ \<Rightarrow>
             let len = js_length (get_prop (JObj kvs) firstKey) in
             if \<not> list_all (\<lambda>k. js_length (get_prop (JObj kvs) k) = len) (map fst kvs)
             then transpose_rows kvs
                    (fold (\<lambda>k m. min m (js_length (get_prop (JObj kvs) k))) (tl (map fst kvs))
                       (js_length (get_prop (JObj kvs) firstKey)))
             else transpose_rows kvs len)
      else [])"
| "asRows _ = []"

section \<open>Transforms\<close>

subsection \<open>\<open>t_correlation\<close>\<close>

text \<open>
  \<open>numeric_entries env v\<close> is \<open>Array.isArray(v) ? v.map(Number).filter(n => !isNaN(n)) : []\<close>.
\<close>

fun numeric_entries :: "js_env \<Rightarrow> jsval \<Rightarrow> real list" where
  "numeric_entries env (JArr xs) = List.map_filter (to_number env) xs"
| "numeric_entries env _ = []"

text \<open>\<open>mean n a\<close> is \<open>a.reduce((s, x) => s + x, 0) / n\<close>.\<close>

definition mean :: "nat \<Rightarrow> real list \<Rightarrow> double" where
  "mean n a = d_div (foldl (\<lambda>s x. d_add s (Some x)) (Some 0) a) (Some (real n))"

text \<open>One round of the accumulation loop, at index \<open>i\<close>; \<open>X[i] ?? 0\<close> reads 0 beyond
  the end of the array.\<close>

definition at_or_zero :: "real list \<Rightarrow> nat \<Rightarrow> real" where
  "at_or_zero X i = (if i < length X then X ! i else 0)"

definition corr_step ::
  "real list \<Rightarrow> real list \<Rightarrow> double \<Rightarrow> double \<Rightarrow> nat
     \<Rightarrow> double \<times> double \<times> double \<Rightarrow> double \<times> double \<times> double" where
  "corr_step X Y mx my i acc =
     (case acc of (num, dx, dy) \<Rightarrow>
        let vx = d_sub (Some (at_or_zero X i)) mx; vy = d_sub (Some (at_or_zero Y i)) my
        in (d_add num (d_mul vx vy), d_add dx (d_mul vx vx), d_add dy (d_mul vy vy)))"

text \<open>\<open>corr_sums n X Y\<close> is the value of \<open>(num, dx, dy)\<close> after the loop, and \<open>corr_den\<close>
  the denominator \<open>Math.sqrt(dx * dy)\<close>; \<open>epsilon\<close> is the literal \<open>1e-6\<close>, the double
  nearest to that decimal.\<close>

definition corr_sums :: "nat \<Rightarrow> real list \<Rightarrow> real list \<Rightarrow> double \<times> double \<times> double" where
  "corr_sums n X Y =
     fold (corr_step X Y (mean n (take n X)) (mean n (take n Y))) [0..<n] (Some 0, Some 0, Some 0)"

definition epsilon :: double where
  "epsilon = Some (fl (1 / 10 ^ 6))"


definition pearson_seq :: "real list \<Rightarrow> real list \<Rightarrow> double" where
  "pearson_seq X Y =
     (let n = min (length X) (length Y) in
      if n < 2 then Some 0
      else
        case corr_sums n X Y of
          (num, dx, dy) \<Rightarrow>
            let den = d_sqrt (d_mul dx dy)
            in if d_gt den epsilon then d_div num den else Some 0)"

definition t_correlation :: "js_env \<Rightarrow> jsval \<Rightarrow> jsval \<Rightarrow> double" where
  "t_correlation env xs ys = pearson_seq (numeric_entries env xs) (numeric_entries env ys)"






text \<open>
  The pairing the specification asks for: pair the two arrays by index first, then drop
  a pair when either member is not numeric.
\<close>

definition aligned_pairs :: "js_env \<Rightarrow> jsval list \<Rightarrow> jsval list \<Rightarrow> (real \<times> real) list" where
  "aligned_pairs env xs ys =
     List.map_filter
       (\<lambda>(a, b). case to_number env a of
                    None \<Rightarrow> None
                  | Some x \<Rightarrow> (case to_number env b of None \<Rightarrow> None | Some y \<Rightarrow> Some (x, y)))
       (zip xs ys)"

definition correlation_by_index :: "js_env \<Rightarrow> jsval list \<Rightarrow> jsval list \<Rightarrow> double" where
  "correlation_by_index env xs ys =
     pearson_seq (map fst (aligned_pairs env xs ys)) (map snd (aligned_pairs env xs ys))"

subsection \<open>A sample environment\<close>

text \<open>
  To run the model on concrete inputs: numbers print as the decimal numeral of their
  integer part, strings of digits convert to the number they spell, and no JSONPath
  query is answered.
\<close>

definition isDigit :: "char \<Rightarrow> bool" where
  "isDigit c = (48 \<le> (of_char c :: nat) \<and> (of_char c :: nat) \<le> 57)"

definition sample_env :: js_env where
  "sample_env =
     \<lparr> str_num = (\<lambda>s. if list_all isDigit s
                       then Some (real (foldl (\<lambda>a c. 10 * a + (of_char c - 48)) 0 s))
                       else None),
       num_str = (\<lambda>r. (if r < 0 then ''-'' else []) @ dec (nat \<lfloor>\<bar>r\<bar>\<rfloor>)),
       json_path = (\<lambda>wrap p v. None) \<rparr>"

subsection \<open>Properties of the correlation\<close>











lemma not_inf_0: "\<not> is_inf 0"
  by (simp add: is_inf_def d_inf_def)










text \<open>
  The mean of \<open>n\<close> equal integers \<open>c\<close> is computed exactly when \<open>n * \<bar>c\<bar>\<close> is at
  most \<open>2^53\<close>: every partial sum is an integer of the format.
\<close>

lemma not_inf_small: "\<bar>x\<bar> \<le> 2 ^ 53 \<Longrightarrow> \<not> is_inf x"
  by (simp add: is_inf_def d_inf_def)

lemma fl_integer:
  assumes "\<bar>real k * of_int c\<bar> \<le> 2 ^ 53"
  shows "fl (real k * of_int c) = real k * of_int c"
proof -
  have "\<bar>of_int (int k * c) :: real\<bar> \<le> 2 ^ 53"
    using assms by simp
  then have "\<bar>int k * c\<bar> \<le> 2 ^ 53"
    by (metis of_int_abs of_int_le_iff of_int_numeral of_int_power)
  from fl_of_int[OF this] show ?thesis
    by simp
qed

lemma sum_equal_integers:
  assumes "real j * \<bar>of_int c\<bar> \<le> 2 ^ 53"
  shows "foldl (\<lambda>s x. d_add s (Some x)) (Some 0) (replicate j (of_int c))
          = Some (real j * of_int c)"
  using assms
proof (induction j)
  case 0
  then show ?case by simp
next
  case (Suc j)
  have "real j * \<bar>of_int c :: real\<bar> \<le> real (Suc j) * \<bar>of_int c\<bar>"
    by (intro mult_right_mono) simp_all
  then have j: "real j * \<bar>of_int c :: real\<bar> \<le> 2 ^ 53"
    using Suc.prems by linarith
  have "1 * \<bar>of_int c :: real\<bar> \<le> real (Suc j) * \<bar>of_int c\<bar>"
    by (intro mult_right_mono) simp_all
  then have c: "\<bar>of_int c :: real\<bar> \<le> 2 ^ 53"
    using Suc.prems by linarith
  have a: "\<bar>real j * of_int c\<bar> \<le> 2 ^ 53"
    using j by (simp add: abs_mult)
  have b: "\<bar>real (Suc j) * of_int c\<bar> \<le> 2 ^ 53"
    using Suc.prems by (simp only: abs_mult abs_of_nat)
  have "foldl (\<lambda>s x. d_add s (Some x)) (Some 0) (replicate (Suc j) (of_int c))
      = d_add (foldl (\<lambda>s x. d_add s (Some x)) (Some 0) (replicate j (of_int c))) (Some (of_int c))"
    unfolding replicate_Suc replicate_append_same[symmetric] foldl_append by simp
  also have "\<dots> = d_add (Some (real j * of_int c)) (Some (of_int c))"
    by (simp only: Suc.IH[OF j])
  also have "\<dots> = Some (fl (real j * of_int c + of_int c))"
    by (simp add: d_add_def not_inf_small[OF a] not_inf_small[OF c])
  also have "real j * of_int c + of_int c = real (Suc j) * (of_int c :: real)"
    by (simp add: algebra_simps)
  also have "fl (real (Suc j) * of_int c) = real (Suc j) * of_int c"
    by (rule fl_integer[OF b])
  finally show ?case .
qed

lemma mean_equal_integers:
  assumes "0 < n" "real n * \<bar>of_int c\<bar> \<le> 2 ^ 53"
  shows "mean n (replicate n (of_int c)) = Some (of_int c)"
proof (cases "c = 0")
  case True
  have "foldl (\<lambda>s x. d_add s (Some x)) (Some 0) (replicate n (of_int c)) = Some 0"
    using sum_equal_integers[OF assms(2)] by (simp add: True)
  then show ?thesis
    using assms(1) by (simp add: mean_def d_div_def not_inf_0 fl_0 True)
next
  case False
  then have "1 \<le> \<bar>c\<bar>"
    by linarith
  then have "1 \<le> \<bar>of_int c :: real\<bar>"
    by (metis of_int_abs of_int_1_le_iff)
  then have "real n * 1 \<le> real n * \<bar>of_int c :: real\<bar>"
    by (intro mult_left_mono) simp_all
  then have n: "\<bar>real n\<bar> \<le> 2 ^ 53"
    using assms(2) by simp
  have "1 * \<bar>of_int c :: real\<bar> \<le> real n * \<bar>of_int c\<bar>"
    using assms(1) by (intro mult_right_mono) simp_all
  then have c: "\<bar>real 1 * of_int c\<bar> \<le> 2 ^ 53"
    using assms(2) by simp
  have s: "\<bar>real n * of_int c\<bar> \<le> 2 ^ 53"
    using assms(2) by (simp only: abs_mult abs_of_nat)
  have "mean n (replicate n (of_int c)) = d_div (Some (real n * of_int c)) (Some (real n))"
    by (simp only: mean_def sum_equal_integers[OF assms(2)])
  also have "\<dots> = Some (fl (real n * of_int c / real n))"
    using assms(1) by (simp add: d_div_def not_inf_small[OF s] not_inf_small[OF n])
  also have "real n * of_int c / real n = real 1 * (of_int c :: real)"
    using assms(1) by simp
  also have "fl (real 1 * of_int c) = real 1 * of_int c"
    by (rule fl_integer[OF c])
  finally show ?thesis
    by simp
qed




text \<open>The results of all the roundings of some runs.\<close>

lemma upt_3: "[0..<3] = [0, 1, 2]"
  by (simp add: upt_rec)

lemma upt_2: "[0..<2] = [0, 1]"
  by (simp add: upt_rec)


lemma fl_epsilon: "fl (1 / 1000000) = 4722366482869645 / 4722366482869645213696"
  by (rule fl_evalI[where k = "- 20" and m = 4722366482869645]) (simp_all add: d_inf_def)



lemma fl_half: "fl (1 / 2) = 1 / 2"
  by (rule fl_evalI[where k = "- 1" and m = 4503599627370496]) (simp_all add: d_inf_def)




































lemma sqrt_4: "sqrt 4 = 2"
  by (rule real_sqrt_unique) simp_all

lemma pearson_seq_shifted:
  "pearson_seq [1, 2, 3] [2, 1, 3]
     = Some (1 / 2)"
  by (simp add: pearson_seq_def corr_sums_def mean_def corr_step_def at_or_zero_def Let_def upt_3
      d_add_def d_sub_def d_mul_def d_div_def d_sqrt_def d_gt_def epsilon_def is_inf_def d_inf_def
      fl_minus fl_0 fl_1 fl_numeral
      sqrt_4 fl_epsilon fl_half)

lemma pearson_seq_aligned:
  "pearson_seq [1, 3] [1, 3]
     = Some 1"
  by (simp add: pearson_seq_def corr_sums_def mean_def corr_step_def at_or_zero_def Let_def upt_2
      d_add_def d_sub_def d_mul_def d_div_def d_sqrt_def d_gt_def epsilon_def is_inf_def d_inf_def
      fl_minus fl_0 fl_1 fl_numeral
      sqrt_4 fl_epsilon)











text \<open>
  C1: the correlation pairs the values by their original index. The source filters
  each array on its own before it pairs them, so an entry that is not numeric shifts
  every later entry of its array: with \<open>xs = [undefined, 1, 2, 3]\<close> and
  \<open>ys = [2, 1, undefined, 3]\<close> it correlates \<open>[1,2,3]\<close> with \<open>[2,1,3]\<close> and returns
  1/2, where the pairs aligned by index, \<open>(1,1)\<close> and \<open>(3,3)\<close>, have correlation 1.
\<close>

theorem correlation_pairing_shifted:
  "t_correlation env (JArr [JUndefined, JNum 1, JNum 2, JNum 3])
                     (JArr [JNum 2, JNum 1, JUndefined, JNum 3]) = Some (1 / 2)
   \<and> aligned_pairs env [JUndefined, JNum 1, JNum 2, JNum 3]
                        [JNum 2, JNum 1, JUndefined, JNum 3] = [(1, 1), (3, 3)]
   \<and> correlation_by_index env [JUndefined, JNum 1, JNum 2, JNum 3]
                               [JNum 2, JNum 1, JUndefined, JNum 3] = Some 1"
proof -
  have al: "aligned_pairs env [JUndefined, JNum 1, JNum 2, JNum 3]
              [JNum 2, JNum 1, JUndefined, JNum 3] = [(1, 1), (3, 3)]"
    by (simp add: aligned_pairs_def List.map_filter_def)
  show ?thesis
    by (simp add: t_correlation_def correlation_by_index_def List.map_filter_def
        pearson_seq_shifted pearson_seq_aligned al)
qed

subsection \<open>\<open>t_top_n\<close>\<close>

text \<open>\<open>sort_val env by row\<close> is \<open>Number(row?.[by]) || 0\<close>.\<close>

definition sort_val :: "js_env \<Rightarrow> string \<Rightarrow> jsval \<Rightarrow> real" where
  "sort_val env by row = (case to_number env (get_prop row by) of None \<Rightarrow> 0 | Some r \<Rightarrow> r)"

text \<open>
  \<open>Array.prototype.sort\<close> with a comparator \<open>(a, b) => key a - key b\<close>: the sort is
  stable, and it moves the \<open>undefined\<close> elements of the array to its end without
  comparing them.
\<close>

definition js_sort :: "(jsval \<Rightarrow> real) \<Rightarrow> jsval list \<Rightarrow> jsval list" where
  "js_sort key xs =
     sort_key key (filter (\<lambda>x. x \<noteq> JUndefined) xs) @ filter (\<lambda>x. x = JUndefined) xs"

text \<open>\<open>slice0 xs n\<close> is \<open>xs.slice(0, n)\<close>; a negative \<open>n\<close> counts from the end.\<close>

definition slice0 :: "'a list \<Rightarrow> int \<Rightarrow> 'a list" where
  "slice0 xs n = (if n < 0 then take (nat (int (length xs) + n)) xs else take (nat n) xs)"

text \<open>\<open>top_n_sorted\<close> is the sorted copy \<open>s\<close> of the source, \<open>t_top_n\<close> its first
  \<open>n\<close> rows, and \<open>top_n_excluded\<close> the rows of \<open>s\<close> that are not returned.\<close>

definition top_n_sorted :: "js_env \<Rightarrow> jsval \<Rightarrow> string \<Rightarrow> bool \<Rightarrow> jsval list" where
  "top_n_sorted env arr by desc =
     js_sort (\<lambda>r. if desc then - sort_val env by r else sort_val env by r) (asRows arr)"

definition t_top_n :: "js_env \<Rightarrow> jsval \<Rightarrow> int \<Rightarrow> string \<Rightarrow> bool \<Rightarrow> jsval list" where
  "t_top_n env arr n by desc = slice0 (top_n_sorted env arr by desc) n"







section \<open>Paths and templates\<close>

text \<open>White space as \<open>trim\<close> and the class \<open>\s\<close> of a regular expression read it
  (the ASCII part of it: a string is a list of bytes).\<close>

definition isSpace :: "char \<Rightarrow> bool" where
  "isSpace c = (c \<in> set [CHR '' '', CHR 0x09, CHR 0x0A, CHR 0x0B, CHR 0x0C, CHR 0x0D])"

definition trim :: "string \<Rightarrow> string" where
  "trim s = rev (dropWhile isSpace (rev (dropWhile isSpace s)))"

text \<open>\<open>split_on c s\<close> is \<open>s.split(c)\<close>.\<close>

fun split_on :: "char \<Rightarrow> string \<Rightarrow> string list" where
  "split_on c [] = [[]]"
| "split_on c (x # xs) =
     (if x = c then [] # split_on c xs
      else (case split_on c xs of p # ps \<Rightarrow> (x # p) # ps | [] \<Rightarrow> [[x]]))"

definition starts_with :: "string \<Rightarrow> string \<Rightarrow> bool" where
  "starts_with p s = (take (length p) s = p)"

text \<open>
  \<open>resolvePathLike\<close>: a value that is not a string is returned as it is; an expression
  that starts with \<open>$.\<close> or \<open>$[\<close> is a JSONPath query on the scope, \<open>undefined\<close> when
  the library throws; any other expression is walked field by field, and the walk stops
  with \<open>undefined\<close> at a null or undefined value.
\<close>

fun walk_path :: "string list \<Rightarrow> jsval \<Rightarrow> jsval" where
  "walk_path [] cur = cur"
| "walk_path (p # ps) cur = (if isNullish cur then JUndefined else walk_path ps (get_prop cur p))"

definition resolve_path :: "js_env \<Rightarrow> jsval \<Rightarrow> string \<Rightarrow> jsval" where
  "resolve_path env scope expr =
     (if starts_with ''$.'' expr \<or> starts_with ''$['' expr
      then (case json_path env True expr scope of Some v \<Rightarrow> v | None \<Rightarrow> JUndefined)
      else walk_path (split_on CHR ''.'' expr) scope)"

fun resolvePathLike :: "js_env \<Rightarrow> jsval \<Rightarrow> jsval \<Rightarrow> jsval" where
  "resolvePathLike env scope (JStr expr) = resolve_path env scope expr"
| "resolvePathLike env scope expr = expr"

text \<open>
  \<open>join_match call\<close> is the match of \<open>/^join_coords\(([^,]+),\s*([^)]+)\)\s*$/\<close>:
  the first group runs to the first comma, the second to the first closing parenthesis
  after it, and only white space may follow. The second group is returned with the
  white space that \<open>\s*\<close> may have taken; the caller trims both groups.
\<close>

definition join_match :: "string \<Rightarrow> (string \<times> string) option" where
  "join_match call =
     (if starts_with ''join_coords('' call then
        let r = drop (length ''join_coords('') call;
            g1 = takeWhile (\<lambda>c. c \<noteq> CHR '','') r;
            r1 = dropWhile (\<lambda>c. c \<noteq> CHR '','') r
        in if g1 \<noteq> [] \<and> r1 \<noteq> [] then
             let body = takeWhile (\<lambda>c. c \<noteq> CHR '')'') (tl r1);
                 rest = dropWhile (\<lambda>c. c \<noteq> CHR '')'') (tl r1)
             in if body \<noteq> [] \<and> rest \<noteq> [] \<and> list_all isSpace (tl rest)
                then Some (g1, body) else None
           else None
      else None)"

text \<open>
  The origin of the scope as \<open>lon,lat\<close>: from \<open>scope._origin\<close> when its two coordinates
  are not null, else from the string \<open>scope.context.origin\<close>, written \<open>lat,lon\<close>.
\<close>

definition origin_coords :: "js_env \<Rightarrow> jsval \<Rightarrow> string" where
  "origin_coords env scope =
     (let origin = get_prop scope ''_origin'' in
      if truthy origin \<and> \<not> isNullish (get_prop origin ''lon'') \<and> \<not> isNullish (get_prop origin ''lat'')
      then to_string env (get_prop origin ''lon'') @ '','' @ to_string env (get_prop origin ''lat'')
      else
        let ctx_origin = get_prop (get_prop scope ''context'') ''origin'' in
        if truthy ctx_origin then
          (case split_on CHR '','' (to_string env ctx_origin) of
             lat # lon # _ \<Rightarrow> if lat \<noteq> [] \<and> lon \<noteq> [] then trim lon @ '','' @ trim lat else []
           | _ \<Rightarrow> [])
        else [])"

definition coord_pairs :: "js_env \<Rightarrow> jsval list \<Rightarrow> jsval list \<Rightarrow> string list" where
  "coord_pairs env lats lons =
     concat (map (\<lambda>i. if \<not> isNullish (lons ! i) \<and> \<not> isNullish (lats ! i)
                       then [to_string env (lons ! i) @ '','' @ to_string env (lats ! i)] else [])
               [0..<min (length lats) (length lons)])"

definition join_coords :: "js_env \<Rightarrow> jsval \<Rightarrow> string \<Rightarrow> string \<Rightarrow> string" where
  "join_coords env scope latPath lonPath =
     (case (resolve_path env scope latPath, resolve_path env scope lonPath) of
        (JArr lats, JArr lons) \<Rightarrow>
          intercalate '';''
            ((if origin_coords env scope \<noteq> [] then [origin_coords env scope] else [])
             @ coord_pairs env lats lons)
      | _ \<Rightarrow> [])"

definition placeholder :: "js_env \<Rightarrow> jsval \<Rightarrow> string \<Rightarrow> string" where
  "placeholder env scope code =
     (let call = trim code in
      case join_match call of
        Some (g1, g2) \<Rightarrow> join_coords env scope (trim g1) (trim g2)
      | None \<Rightarrow>
          let val = resolve_path env scope call
          in if isNullish val then [] else to_string env val)"

text \<open>
  \<open>replace_placeholders f t\<close> is \<open>t.replace(/\{\{([^}]+)\}\}/g, (_m, code) => f(code))\<close>:
  from left to right, two opening braces, a non-empty run without a closing brace, and
  two closing braces are replaced by \<open>f\<close> of the run.
\<close>

function replace_placeholders :: "(string \<Rightarrow> string) \<Rightarrow> string \<Rightarrow> string" where
  "replace_placeholders f [] = []"
| "replace_placeholders f (c # cs) =
     (if c = CHR ''{'' \<and> cs \<noteq> [] \<and> hd cs = CHR ''{''
         \<and> takeWhile (\<lambda>x. x \<noteq> CHR ''}'') (tl cs) \<noteq> []
         \<and> starts_with ''}}'' (dropWhile (\<lambda>x. x \<noteq> CHR ''}'') (tl cs))
      then f (takeWhile (\<lambda>x. x \<noteq> CHR ''}'') (tl cs))
           @ replace_placeholders f (drop 2 (dropWhile (\<lambda>x. x \<noteq> CHR ''}'') (tl cs)))
      else c # replace_placeholders f cs)"
  by pat_completeness auto
termination
proof (relation "measure (\<lambda>(f, s). length s)")
  show "wf (measure (\<lambda>(f, s). length s))" by simp
next
  fix f :: "string \<Rightarrow> string" and c :: char and cs :: string
  have "length (dropWhile (\<lambda>x. x \<noteq> CHR ''}'') (tl cs)) \<le> length (tl cs)"
    by (rule length_dropWhile_le)
  then show "((f, drop 2 (dropWhile (\<lambda>x. x \<noteq> CHR ''}'') (tl cs))), (f, c # cs)) \<in> measure (\<lambda>(f, s). length s)"
    by simp
next
  fix f :: "string \<Rightarrow> string" and c :: char and cs :: string
  show "((f, cs), (f, c # cs)) \<in> measure (\<lambda>(f, s). length s)" by simp
qed

declare replace_placeholders.simps [simp del]

text \<open>\<open>interpolate\<close> on a template string (a template that is not a string is
  returned as it is by the source, and so is the empty string).\<close>

definition interpolate :: "js_env \<Rightarrow> string \<Rightarrow> jsval \<Rightarrow> string" where
  "interpolate env template scope = replace_placeholders (placeholder env scope) template"

lemma takeWhile_until:
  "c \<notin> set xs \<Longrightarrow> takeWhile (\<lambda>x. x \<noteq> c) (xs @ c # ys) = xs"
  by (induction xs) auto

lemma dropWhile_until:
  "c \<notin> set xs \<Longrightarrow> dropWhile (\<lambda>x. x \<noteq> c) (xs @ c # ys) = c # ys"
  by (induction xs) auto

lemma replace_single_placeholder:
  assumes "code \<noteq> []" and "CHR ''}'' \<notin> set code"
  shows "replace_placeholders f (''{{'' @ code @ ''}}'') = f code"
  using assms
  by (simp add: replace_placeholders.simps takeWhile_until dropWhile_until starts_with_def)

lemma trim_no_space_ends:
  assumes "s \<noteq> []" and "\<not> isSpace (hd s)" and "\<not> isSpace (last s)"
  shows "trim s = s"
proof -
  have a: "dropWhile isSpace s = s"
    using assms(1,2) by (cases s) auto
  have "rev (butlast s @ [last s]) = last s # rev (butlast s)"
    by simp
  then have r: "rev s = last s # rev (butlast s)"
    using assms(1) by simp
  have b: "dropWhile isSpace (rev s) = rev s"
    by (subst (1 2) r) (simp add: assms(3))
  show ?thesis
    by (simp add: trim_def a b)
qed

lemma join_match_call:
  assumes "latPath \<noteq> []" and "CHR '','' \<notin> set latPath"
      and "lonPath \<noteq> []" and "CHR '')'' \<notin> set lonPath"
  shows "join_match (''join_coords('' @ latPath @ '','' @ lonPath @ '')'') = Some (latPath, lonPath)"
  using assms
  by (simp add: join_match_def starts_with_def takeWhile_until dropWhile_until Let_def)

lemma concat_map_if:
  "concat (map (\<lambda>i. if P i then [f i] else []) xs) = map f (filter P xs)"
  by (induction xs) auto

lemma zip_by_index:
  "zip xs ys = map (\<lambda>i. (xs ! i, ys ! i)) [0..<min (length xs) (length ys)]"
  by (rule nth_equalityI) auto

lemma coord_pairs_zip:
  "coord_pairs env lats lons =
     map (\<lambda>(lo, la). to_string env lo @ '','' @ to_string env la)
       (filter (\<lambda>(lo, la). \<not> isNullish lo \<and> \<not> isNullish la) (zip lons lats))"
  unfolding coord_pairs_def concat_map_if zip_by_index
  by (simp add: filter_map comp_def min.commute)

lemma interpolate_join_call:
  assumes "latPath \<noteq> []" and "CHR ''}'' \<notin> set latPath" and "CHR '','' \<notin> set latPath"
      and "lonPath \<noteq> []" and "CHR ''}'' \<notin> set lonPath" and "CHR '')'' \<notin> set lonPath"
  shows "interpolate env (''{{join_coords('' @ latPath @ '','' @ lonPath @ '')}}'') scope
         = join_coords env scope (trim latPath) (trim lonPath)"
proof -
  let ?code = "''join_coords('' @ latPath @ '','' @ lonPath @ '')''"
  have ne: "?code \<noteq> []" by simp
  have nb: "CHR ''}'' \<notin> set ?code" using assms(2,5) by simp
  have "''{{join_coords('' @ latPath @ '','' @ lonPath @ '')}}'' = ''{{'' @ ?code @ ''}}''"
    by simp
  then have r: "interpolate env (''{{join_coords('' @ latPath @ '','' @ lonPath @ '')}}'') scope
      = placeholder env scope ?code"
    unfolding interpolate_def using replace_single_placeholder[OF ne nb] by metis
  have tr: "trim ?code = ?code"
    by (rule trim_no_space_ends) (simp_all add: isSpace_def)
  show ?thesis
    unfolding r placeholder_def tr Let_def
    using join_match_call[OF assms(1,3,4,6)] by simp
qed

text \<open>The scope of the interpolation scenario.\<close>

definition coords_example_scope :: jsval where
  "coords_example_scope =
     JObj [(''outputs'', JObj [(''a'', JObj [(''lat'', JArr [JNum 1, JNum 2]),
                                              (''lon'', JArr [JNum 10, JNum 20])])]),
           (''_origin'', JObj [(''lat'', JNum 0), (''lon'', JNum 0)])]"

lemma origin_coords_explicit:
  assumes "truthy (get_prop scope ''_origin'')"
      and "\<not> isNullish (get_prop (get_prop scope ''_origin'') ''lon'')"
      and "\<not> isNullish (get_prop (get_prop scope ''_origin'') ''lat'')"
  shows "origin_coords env scope =
           to_string env (get_prop (get_prop scope ''_origin'') ''lon'') @ '','' @
           to_string env (get_prop (get_prop scope ''_origin'') ''lat'')"
  using assms by (simp add: origin_coords_def Let_def)

lemma join_coords_not_arrays:
  "\<not> isArray (resolve_path env scope p) \<or> \<not> isArray (resolve_path env scope q)
   \<Longrightarrow> join_coords env scope p q = []"
  by (auto simp: join_coords_def split: jsval.splits)

lemma example_paths:
  "resolve_path env coords_example_scope ''outputs.a.lat'' = JArr [JNum 1, JNum 2]"
  "resolve_path env coords_example_scope ''outputs.a.lon'' = JArr [JNum 10, JNum 20]"
  by (simp_all add: resolve_path_def starts_with_def coords_example_scope_def)

lemma example_origin:
  "origin_coords env coords_example_scope = num_str env 0 @ '','' @ num_str env 0"
  by (simp add: origin_coords_def coords_example_scope_def)

lemma example_trim:
  "trim ''outputs.a.lat'' = ''outputs.a.lat''"
  "trim '' outputs.a.lon'' = ''outputs.a.lon''"
  by (simp_all add: trim_def isSpace_def)

text \<open>
  C9: in a scope whose \<open>_origin\<close> has both coordinates, a placeholder
  \<open>{{join_coords(latPath,lonPath)}}\<close> is replaced by the pairs \<open>lon,lat\<close> of the two
  resolved arrays, in order and joined by \<open>;\<close>, after the origin as the first pair (a
  pair with a null or undefined member is left out), and by the empty string when
  either path does not resolve to an array; with \<open>outputs.a.lat = [1,2]\<close>,
  \<open>outputs.a.lon = [10,20]\<close> and the origin \<open>{lat: 0, lon: 0}\<close> the result is
  \<open>0,0;10,1;20,2\<close>.
\<close>

theorem interpolate_join_coords:
  assumes "latPath \<noteq> []" and "CHR ''}'' \<notin> set latPath" and "CHR '','' \<notin> set latPath"
      and "lonPath \<noteq> []" and "CHR ''}'' \<notin> set lonPath" and "CHR '')'' \<notin> set lonPath"
      and "truthy (get_prop scope ''_origin'')"
      and "\<not> isNullish (get_prop (get_prop scope ''_origin'') ''lon'')"
      and "\<not> isNullish (get_prop (get_prop scope ''_origin'') ''lat'')"
  shows
    "(\<forall>lats lons.
        resolve_path env scope (trim latPath) = JArr lats
        \<and> resolve_path env scope (trim lonPath) = JArr lons \<longrightarrow>
        interpolate env (''{{join_coords('' @ latPath @ '','' @ lonPath @ '')}}'') scope =
          intercalate '';''
            ((to_string env (get_prop (get_prop scope ''_origin'') ''lon'') @ '','' @
              to_string env (get_prop (get_prop scope ''_origin'') ''lat''))
             # map (\<lambda>(lo, la). to_string env lo @ '','' @ to_string env la)
                 (filter (\<lambda>(lo, la). \<not> isNullish lo \<and> \<not> isNullish la) (zip lons lats))))
     \<and> (\<not> isArray (resolve_path env scope (trim latPath))
          \<or> \<not> isArray (resolve_path env scope (trim lonPath)) \<longrightarrow>
          interpolate env (''{{join_coords('' @ latPath @ '','' @ lonPath @ '')}}'') scope = [])
     \<and> (num_str env 0 = ''0'' \<and> num_str env 1 = ''1'' \<and> num_str env 2 = ''2''
          \<and> num_str env 10 = ''10'' \<and> num_str env 20 = ''20'' \<longrightarrow>
          interpolate env ''{{join_coords(outputs.a.lat, outputs.a.lon)}}'' coords_example_scope
            = ''0,0;10,1;20,2'')"
proof -
  note call = interpolate_join_call[OF assms(1-6), of env scope]
  note oc = origin_coords_explicit[OF assms(7-9), of env]
  have p1: "interpolate env (''{{join_coords('' @ latPath @ '','' @ lonPath @ '')}}'') scope =
          intercalate '';''
            ((to_string env (get_prop (get_prop scope ''_origin'') ''lon'') @ '','' @
              to_string env (get_prop (get_prop scope ''_origin'') ''lat''))
             # map (\<lambda>(lo, la). to_string env lo @ '','' @ to_string env la)
                 (filter (\<lambda>(lo, la). \<not> isNullish lo \<and> \<not> isNullish la) (zip lons lats)))"
    if "resolve_path env scope (trim latPath) = JArr lats"
      and "resolve_path env scope (trim lonPath) = JArr lons" for lats lons
    unfolding call join_coords_def using that by (simp add: oc coord_pairs_zip)
  have p2: "interpolate env (''{{join_coords('' @ latPath @ '','' @ lonPath @ '')}}'') scope = []"
    if "\<not> isArray (resolve_path env scope (trim latPath))
          \<or> \<not> isArray (resolve_path env scope (trim lonPath))"
    unfolding call using that by (rule join_coords_not_arrays)
  have p3: "interpolate env ''{{join_coords(outputs.a.lat, outputs.a.lon)}}'' coords_example_scope
            = ''0,0;10,1;20,2''"
    if "num_str env 0 = ''0'' \<and> num_str env 1 = ''1'' \<and> num_str env 2 = ''2''
          \<and> num_str env 10 = ''10'' \<and> num_str env 20 = ''20''"
  proof -
    have "interpolate env (''{{join_coords('' @ ''outputs.a.lat'' @ '','' @ '' outputs.a.lon'' @ '')}}'')
            coords_example_scope
          = join_coords env coords_example_scope (trim ''outputs.a.lat'') (trim '' outputs.a.lon'')"
      by (rule interpolate_join_call) simp_all
    then have "interpolate env ''{{join_coords(outputs.a.lat, outputs.a.lon)}}'' coords_example_scope
          = join_coords env coords_example_scope ''outputs.a.lat'' ''outputs.a.lon''"
      by (simp add: example_trim)
    also have "\<dots> = ''0,0;10,1;20,2''"
      using that
      by (simp add: join_coords_def example_paths example_origin coord_pairs_def upt_2)
    finally show ?thesis .
  qed
  from p1 p2 p3 show ?thesis
    by blast
qed

theorem interpolate_join_coords_witness:
  "interpolate sample_env ''{{join_coords(outputs.a.lat, outputs.a.lon)}}'' coords_example_scope
     = ''0,0;10,1;20,2''
   \<and> interpolate sample_env ''{{join_coords(outputs.a.lat,outputs.b)}}'' coords_example_scope = []"
proof -
  have n: "num_str sample_env 0 = ''0'' \<and> num_str sample_env 1 = ''1'' \<and> num_str sample_env 2 = ''2''
          \<and> num_str sample_env 10 = ''10'' \<and> num_str sample_env 20 = ''20''"
    by (simp add: sample_env_def dec.simps digit_char_def)
  have o: "truthy (get_prop coords_example_scope ''_origin'')"
    "\<not> isNullish (get_prop (get_prop coords_example_scope ''_origin'') ''lon'')"
    "\<not> isNullish (get_prop (get_prop coords_example_scope ''_origin'') ''lat'')"
    by (simp_all add: coords_example_scope_def)
  have na: "\<not> isArray (resolve_path sample_env coords_example_scope (trim ''outputs.b''))"
    by (simp add: trim_def isSpace_def resolve_path_def starts_with_def coords_example_scope_def)
  have t: "''{{join_coords('' @ ''outputs.a.lat'' @ '','' @ ''outputs.b'' @ '')}}''
           = ''{{join_coords(outputs.a.lat,outputs.b)}}''"
    by simp
  from interpolate_join_coords[OF _ _ _ _ _ _ o, of "''outputs.a.lat''" "''outputs.b''" sample_env] n na
  show ?thesis
    unfolding t by simp
qed

section \<open>Objects and the row transforms\<close>

text \<open>\<open>obj_set o k v\<close> is the assignment \<open>o[k] = v\<close>: an existing property keeps its
  place, a new one is added at the end.\<close>

fun obj_set :: "(string \<times> 'v) list \<Rightarrow> string \<Rightarrow> 'v \<Rightarrow> (string \<times> 'v) list" where
  "obj_set [] k v = [(k, v)]"
| "obj_set ((k', v') # kvs) k v = (if k' = k then (k, v) # kvs else (k', v') # obj_set kvs k v)"

text \<open>\<open>Object.entries(v)\<close>: the own properties of an object, the indexed elements of an
  array or of a string, nothing for the other values.\<close>

fun own_entries :: "jsval \<Rightarrow> (string \<times> jsval) list" where
  "own_entries (JObj kvs) = kvs"
| "own_entries (JArr xs) = zip (map dec [0..<length xs]) xs"
| "own_entries (JStr s) = zip (map dec [0..<length s]) (map (\<lambda>c. JStr [c]) s)"
| "own_entries _ = []"

text \<open>\<open>obj_assign t v\<close> copies the entries of \<open>v\<close> onto \<open>t\<close>, as the spread
  \<open>{ ...t, ...v }\<close> does.\<close>

definition obj_assign :: "(string \<times> jsval) list \<Rightarrow> jsval \<Rightarrow> (string \<times> jsval) list" where
  "obj_assign target src = fold (\<lambda>(k, v) acc. obj_set acc k v) (own_entries src) target"

text \<open>\<open>or_else v d\<close> is \<open>v || d\<close>, \<open>nullish_else v d\<close> is \<open>v ?? d\<close>, and
  \<open>num_or_zero env v\<close> is \<open>Number(v) || 0\<close>.\<close>

definition or_else :: "jsval \<Rightarrow> jsval \<Rightarrow> jsval" where
  "or_else v d = (if truthy v then v else d)"

definition nullish_else :: "jsval \<Rightarrow> jsval \<Rightarrow> jsval" where
  "nullish_else v d = (if isNullish v then d else v)"

definition num_or_zero :: "js_env \<Rightarrow> jsval \<Rightarrow> real" where
  "num_or_zero env v = (case to_number env v of None \<Rightarrow> 0 | Some r \<Rightarrow> r)"

subsection \<open>Joining and scoring rows\<close>

text \<open>The caller passes the right arrays as an array, here the list of its elements;
  \<open>rightKeys?.[idx]\<close> is read as a property of whatever \<open>rightKeys\<close> is.\<close>

definition t_join_on_index :: "js_env \<Rightarrow> jsval \<Rightarrow> jsval list \<Rightarrow> jsval \<Rightarrow> jsval list" where
  "t_join_on_index env left rightArrays rightKeys =
     (let leftRows = asRows left;
          validRightArrays = map (\<lambda>arr. if isArray arr then arr else JArr []) rightArrays
      in map (\<lambda>i.
            let extra = fold (\<lambda>idx acc.
                          let key = get_prop rightKeys (dec idx)
                          in if truthy key
                             then obj_set acc (to_string env key) (js_at (validRightArrays ! idx) i)
                             else acc)
                        [0..<length validRightArrays] []
            in JObj (obj_assign (obj_assign [] (leftRows ! i)) (JObj extra)))
          [0..<length leftRows])"

text \<open>\<open>yes env v\<close> is \<open>String(v || "").toLowerCase() === "yes"\<close>.\<close>

definition lower_char :: "char \<Rightarrow> char" where
  "lower_char c = (if 65 \<le> (of_char c :: nat) \<and> (of_char c :: nat) \<le> 90
                   then char_of ((of_char c :: nat) + 32) else c)"

definition yes :: "js_env \<Rightarrow> jsval \<Rightarrow> bool" where
  "yes env v = (map lower_char (to_string env (or_else v (JStr []))) = ''yes'')"

text \<open>\<open>field_name env f k\<close> is the property key \<open>f[k] ?? k\<close>.\<close>

definition field_name :: "js_env \<Rightarrow> jsval \<Rightarrow> string \<Rightarrow> string" where
  "field_name env f k = to_string env (nullish_else (get_prop f k) (JStr k))"

definition osm_quality :: "js_env \<Rightarrow> jsval \<Rightarrow> jsval \<Rightarrow> real" where
  "osm_quality env f row =
     (let q0 = fl (35 / 10);
          q1 = (if truthy (get_prop row (field_name env f ''cuisine''))
                then fl (q0 + fl (6 / 10)) else q0);
          q2 = (if truthy (get_prop row (field_name env f ''opening_hours''))
                then fl (q1 + fl (4 / 10)) else q1);
          q3 = (if yes env (get_prop row (field_name env f ''outdoor_seating''))
                then fl (q2 + fl (2 / 10)) else q2);
          q4 = (if yes env (get_prop row (field_name env f ''wheelchair''))
                then fl (q3 + fl (2 / 10)) else q3)
      in if q4 > 5 then 5 else q4)"

definition t_compute_osm_quality :: "js_env \<Rightarrow> jsval \<Rightarrow> jsval \<Rightarrow> jsval list" where
  "t_compute_osm_quality env arr flds =
     (let rows = asRows arr; f = or_else flds (JObj [])
      in map (\<lambda>row. JObj (obj_set (obj_assign [] row) ''quality'' (JNum (osm_quality env f row)))) rows)"

definition t_compute_score :: "js_env \<Rightarrow> jsval \<Rightarrow> string \<Rightarrow> string \<Rightarrow> string \<Rightarrow> jsval list" where
  "t_compute_score env arr ratingKey etaKey precipKey =
     map (\<lambda>row.
        let scaledEta = d_div (Some (num_or_zero env (get_prop row etaKey))) (Some 600);
            precipValue = Some (num_or_zero env (get_prop row precipKey));
            rain = d_min (Some 1) (d_mul precipValue (Some (fl (1 / 10))));
            rating = Some (num_or_zero env (get_prop row ratingKey))
        in JObj (obj_set (obj_assign [] row) ''score''
                  (js_number (d_sub (d_sub rating scaledEta) rain))))
       (asRows arr)"

section \<open>The HTTP runner\<close>

text \<open>
  A thrown error has a name and a message; \<open>error_text e\<close> is \<open>e?.message || String(e)\<close>,
  the text the engine records.
\<close>

datatype js_error = JsError string string

fun error_message :: "js_error \<Rightarrow> string" where
  "error_message (JsError name msg) = msg"

fun error_text :: "js_error \<Rightarrow> string" where
  "error_text (JsError name msg) = (if msg \<noteq> [] then msg else name)"

text \<open>
  A node of the specification. \<open>node_fallback\<close> is the truth value of \<open>node.fallback\<close>,
  and \<open>node_map\<close> is \<open>None\<close> when \<open>node.map\<close> is absent or not an object. The retry count
  and the fan-out cap are natural numbers. The fields an HTTP node compiles its request
  from (\<open>url\<close>, \<open>method\<close>, \<open>params\<close>, \<open>headers\<close>, \<open>body\<close>, \<open>compose\<close>, \<open>timeout_ms\<close>) do not
  appear: the outcome of a request is given by the world below.
\<close>

record retry_policy =
  retry_times :: "nat option"
  retry_backoff_ms :: "real option"

record fanout_spec =
  fanout_over :: jsval
  fanout_max :: "nat option"
  fanout_mapping :: "(string \<times> string) list"

record node =
  node_id :: string
  node_type :: string
  node_fn :: string
  node_args :: jsval
  node_retry :: "retry_policy option"
  node_fallback :: bool
  node_map :: "(string \<times> string) list option"
  node_fanout :: "fanout_spec option"

text \<open>
  What a run reads from outside the program. \<open>respond w i j n\<close> is the outcome of the
  \<open>n\<close>-th attempt of the node at position \<open>i\<close> of the list (for the fan-out item \<open>j\<close>,
  if any): the body of a 2xx response, or the error thrown by the compilation of the
  request or by \<open>axios\<close> (a non-2xx status, a timeout, a network error).
  \<open>jitter w i j\<close> is \<open>Math.random() * 50\<close> of that call, \<open>mock_weather\<close> the random mock
  payload of \<open>n3_weather\<close>, and \<open>elapsed w i\<close> the duration measured for node \<open>i\<close>.
\<close>

datatype attempt_outcome = Responds jsval | Fails js_error

record world =
  respond :: "nat \<Rightarrow> nat option \<Rightarrow> nat \<Rightarrow> attempt_outcome"
  jitter :: "nat \<Rightarrow> nat option \<Rightarrow> real"
  mock_weather :: "nat \<Rightarrow> nat option \<Rightarrow> jsval"
  elapsed :: "nat \<Rightarrow> real"

text \<open>\<open>applyMap\<close>: without a map the body is returned; else each column is the result of
  its JSONPath query on the body, null when the query finds nothing or throws.\<close>

definition applyMap :: "js_env \<Rightarrow> jsval \<Rightarrow> (string \<times> string) list option \<Rightarrow> jsval" where
  "applyMap env json m =
     (case m of
        None \<Rightarrow> json
      | Some kps \<Rightarrow>
          JObj (fold (\<lambda>(k, jp) out.
                  obj_set out k
                    (case json_path env False jp json of
                       None \<Rightarrow> JNull
                     | Some result \<Rightarrow> if result = JUndefined then JNull else result))
                kps []))"

text \<open>The mock payloads; \<open>Math.sin\<close> and \<open>Math.cos\<close> are taken to be correctly rounded.\<close>

definition mock_places :: jsval where
  "mock_places =
     JObj [(''name'', JArr (map (\<lambda>i. JStr (''Mock Place '' @ dec (i + 1))) [0..<8])),
           (''lat'', JArr (map (\<lambda>i. JNum (fl (fl (378715 / 10000)
                                            + fl (fl (5 / 1000) * fl (sin (real i)))))) [0..<8])),
           (''lon'', JArr (map (\<lambda>i. JNum (fl (- fl (122273 / 1000)
                                            + fl (fl (5 / 1000) * fl (cos (real i)))))) [0..<8])),
           (''cuisine'', JArr (map JStr [''mexican'', ''thai'', ''pizza'', ''japanese'', ''indian'',
                                         ''chinese'', ''vietnamese'', ''mediterranean''])),
           (''opening_hours'', JArr (map JStr [''Mo-Su 11:00-22:00'', '''', ''Mo-Su 10:00-20:00'',
                                               ''Mo-Su 11:30-21:30'', '''', '''', '''', ''''])),
           (''outdoor_seating'', JArr (map JStr [''yes'', '''', ''yes'', '''', ''yes'', '''', '''', ''yes''])),
           (''wheelchair'', JArr (map JStr [''yes'', ''yes'', '''', '''', ''yes'', '''', '''', ''''])),
           (''address'', JArr (map (\<lambda>i. JStr (dec (2000 + i) @ '' University Ave'')) [0..<8]))]"

definition mockFor :: "world \<Rightarrow> nat \<Rightarrow> nat option \<Rightarrow> node \<Rightarrow> jsval" where
  "mockFor w i j nd =
     (if node_id nd = ''n1_overpass'' then mock_places
      else if node_id nd = ''n2_eta''
        then JObj [(''eta_seconds'', JArr (map (\<lambda>k. JNum (240 + 40 * real k)) [0..<8]))]
      else if node_id nd = ''n3_weather'' then mock_weather w i j
      else JObj [])"

record http_result =
  data :: jsval
  attempts :: nat
  fallbackUsed :: bool

text \<open>
  \<open>runHttpNode\<close> returns the result of the call, or the error it throws, and the
  sequence of the attempts it made and of the delays it waited.
\<close>

datatype action = Attempt nat | Sleep real

definition maxRetries :: "node \<Rightarrow> nat" where
  "maxRetries nd = (case node_retry nd of None \<Rightarrow> 0
                    | Some r \<Rightarrow> (case retry_times r of None \<Rightarrow> 0 | Some t \<Rightarrow> t))"

definition backoff :: "node \<Rightarrow> real" where
  "backoff nd = (case node_retry nd of None \<Rightarrow> 100
                 | Some r \<Rightarrow> (case retry_backoff_ms r of None \<Rightarrow> 100 | Some b \<Rightarrow> b))"

function http_attempts ::
  "js_env \<Rightarrow> world \<Rightarrow> nat \<Rightarrow> nat option \<Rightarrow> node \<Rightarrow> nat \<Rightarrow> action list \<times> (js_error + http_result)" where
  "http_attempts env w i j nd n =
     (if n \<le> maxRetries nd then
        (case respond w i j (Suc n) of
           Responds body \<Rightarrow>
             ([Attempt (Suc n)],
              Inr \<lparr>data = applyMap env body (node_map nd), attempts = Suc n, fallbackUsed = False\<rparr>)
         | Fails e \<Rightarrow>
             if Suc n > maxRetries nd then
               ([Attempt (Suc n)],
                Inl (if node_fallback nd
                     then JsError ''Error'' (''Node '' @ node_id nd @ '' failed after '' @ dec (Suc n)
                                             @ '' attempts: '' @ error_message e)
                     else e))
             else
               (case http_attempts env w i j nd (Suc n) of
                  (tr, r) \<Rightarrow> (Attempt (Suc n) # Sleep (backoff nd * 2 ^ (Suc n - 1)) # tr, r)))
      else ([], Inl (JsError ''Error'' (''Node '' @ node_id nd @ '' failed unexpectedly after all retries.''))))"
  by pat_completeness auto
termination
  by (relation "measure (\<lambda>(env, w, i, j, nd, n). Suc (maxRetries nd) - n)") auto

declare http_attempts.simps [simp del]

definition runHttpNode ::
  "js_env \<Rightarrow> world \<Rightarrow> nat \<Rightarrow> nat option \<Rightarrow> node \<Rightarrow> bool \<Rightarrow> action list \<times> (js_error + http_result)" where
  "runHttpNode env w i j nd useMocks =
     (if useMocks
      then ([Sleep (50 + jitter w i j)],
            Inr \<lparr>data = mockFor w i j nd, attempts = 1, fallbackUsed = False\<rparr>)
      else http_attempts env w i j nd 0)"

section \<open>The transform runner\<close>

text \<open>\<open>slice_end env v\<close> is the integer \<open>slice\<close> reads its end from: the number of \<open>v\<close>
  truncated towards zero, 0 for NaN. \<open>path_key env v d\<close> is the property key \<open>v || d\<close>.\<close>

definition slice_end :: "js_env \<Rightarrow> jsval \<Rightarrow> int" where
  "slice_end env v = (case to_number env v of None \<Rightarrow> 0
                      | Some r \<Rightarrow> if r < 0 then \<lceil>r\<rceil> else \<lfloor>r\<rfloor>)"

definition path_key :: "js_env \<Rightarrow> jsval \<Rightarrow> string \<Rightarrow> string" where
  "path_key env v d = to_string env (or_else v (JStr d))"

text \<open>
  \<open>runTransformNode\<close> returns the data of the transform, or the error thrown: the only
  throw is the call of \<open>map\<close> on a \<open>rightArrays\<close> argument that is not an array. A
  function name that is none of the five is logged and the input named by \<open>args.from\<close>
  is returned, null when there is none.
\<close>

definition runTransformNode :: "js_env \<Rightarrow> node \<Rightarrow> (string \<times> jsval) list \<Rightarrow> js_error + jsval" where
  "runTransformNode env nd outputs =
     (let scope = JObj [(''outputs'', JObj outputs)]; args = node_args nd; fn = node_fn nd in
      if fn = ''join_on_index'' then
        (let left = nullish_else (resolvePathLike env scope (get_prop args ''left'')) (JArr []);
             paths = or_else (get_prop args ''rightArrays'') (JArr []);
             rightKeys = or_else (get_prop args ''rightKeys'') (JArr [])
         in case paths of
              JArr ps \<Rightarrow>
                Inr (JArr (t_join_on_index env left (map (resolvePathLike env scope) ps) rightKeys))
            | _ \<Rightarrow> Inl (JsError ''TypeError'' ''map is not a function''))
      else if fn = ''compute_osm_quality'' then
        (let arr = nullish_else
                     (resolvePathLike env scope (or_else (get_prop args ''from'') (JStr ''outputs.t1_join'')))
                     (JArr [])
         in Inr (JArr (t_compute_osm_quality env arr (get_prop args ''fields''))))
      else if fn = ''compute_score'' then
        (let arr = nullish_else
                     (resolvePathLike env scope (or_else (get_prop args ''from'') (JStr ''outputs.t_osm_quality'')))
                     (JArr [])
         in Inr (JArr (t_compute_score env arr
                         (path_key env (get_prop args ''ratingKey'') ''quality'')
                         (path_key env (get_prop args ''etaKey'') ''eta_seconds'')
                         (path_key env (get_prop args ''precipKey'') ''precip''))))
      else if fn = ''top_n'' then
        (let arr = nullish_else
                     (resolvePathLike env scope (or_else (get_prop args ''from'') (JStr ''outputs.t2_score'')))
                     (JArr [])
         in Inr (JArr (t_top_n env arr
                         (slice_end env (nullish_else (get_prop args ''n'') (JNum 5)))
                         (path_key env (get_prop args ''by'') ''score'')
                         (get_prop args ''desc'' \<noteq> JBool False))))
      else if fn = ''correlation'' then
        (let xs = resolvePathLike env scope (get_prop args ''xFrom'');
             ys = resolvePathLike env scope (get_prop args ''yFrom'')
         in Inr (js_number (t_correlation env xs ys)))
      else
        Inr (nullish_else (resolvePathLike env scope (get_prop args ''from'')) JNull))"

section \<open>The execution engine\<close>

text \<open>
  The state of a run: the output store, the nodes and edges with their status, the log,
  the error list, the events published so far (each carries the snapshot of the nodes
  and edges at that moment) and the count of HTTP nodes.
\<close>

datatype status = Pending | Running | Completed | Failed

record node_state =
  ns_node :: node
  ns_status :: status
  ns_latency_ms :: "real option"
  ns_error_message :: "string option"

record edge =
  edge_from :: string
  edge_to :: string

record edge_state =
  es_edge :: edge
  es_status :: status

record log_entry =
  log_node_id :: string
  log_ok :: bool
  log_attempts :: nat
  log_duration_ms :: real
  log_fallback_used :: "bool option"
  log_error :: "string option"

record error_entry =
  err_node_id :: string
  err_error :: string

datatype event =
    NodeStart string "node_state list" "edge_state list"
  | NodeComplete string real "node_state list" "edge_state list"
  | NodeFail string real string "node_state list" "edge_state list"

record run_state =
  outputs :: "(string \<times> jsval) list"
  nodes :: "node_state list"
  edges :: "edge_state list"
  runLog :: "log_entry list"
  errors :: "error_entry list"
  events :: "event list"
  apiCalls :: nat

subsection \<open>Fan-out\<close>

text \<open>\<open>fanout_cap f len\<close> is \<open>Math.min(node.fanout.max || len, len)\<close>.\<close>

definition fanout_cap :: "fanout_spec \<Rightarrow> nat \<Rightarrow> nat" where
  "fanout_cap f len =
     min (case fanout_max f of None \<Rightarrow> len | Some m \<Rightarrow> if m = 0 then len else m) len"

record fanout_acc =
  merged :: "(string \<times> jsval list) list"
  fan_errors :: "error_entry list"
  maxAttempts :: nat
  anyFallback :: bool

text \<open>\<open>set_cell cap j v k\<close> is
  \<open>if (!merged[k]) merged[k] = new Array(cap).fill(null); merged[k][j] = v\<close>.\<close>

definition set_cell :: "nat \<Rightarrow> nat \<Rightarrow> jsval \<Rightarrow> string \<Rightarrow> (string \<times> jsval list) list \<Rightarrow> (string \<times> jsval list) list" where
  "set_cell cap j v k m =
     obj_set m k ((case map_of m k of None \<Rightarrow> replicate cap JNull | Some col \<Rightarrow> col)[j := v])"

text \<open>One round of the merge loop, on the settled call \<open>j\<close>.\<close>

definition merge_settled ::
  "node \<Rightarrow> nat \<Rightarrow> nat \<Rightarrow> js_error + http_result \<Rightarrow> fanout_acc \<Rightarrow> fanout_acc" where
  "merge_settled nd cap j s acc =
     (case s of
        Inr r \<Rightarrow>
          acc\<lparr> maxAttempts := max (maxAttempts acc) (attempts r),
               anyFallback := (anyFallback acc \<or> fallbackUsed r),
               merged := fold (\<lambda>(k, val). set_cell cap j (if isArray val then js_at val 0 else val) k)
                           (own_entries (or_else (data r) (JObj []))) (merged acc) \<rparr>
      | Inl e \<Rightarrow>
          acc\<lparr> fan_errors := fan_errors acc
                   @ [\<lparr>err_node_id = node_id nd @ ''['' @ dec j @ '']'', err_error = error_text e\<rparr>],
               maxAttempts := max (maxAttempts acc) (maxRetries nd + 1),
               merged := fold (set_cell cap j JNull)
                           (case node_map nd of None \<Rightarrow> [] | Some kps \<Rightarrow> map fst kps) (merged acc) \<rparr>)"

text \<open>The calls of a fan-out are settled one by one (\<open>Promise.allSettled\<close>): call \<open>j\<close>
  is \<open>runHttpNode\<close> on item \<open>j\<close>, whatever the other calls do.\<close>

definition fanout_settled ::
  "js_env \<Rightarrow> world \<Rightarrow> bool \<Rightarrow> nat \<Rightarrow> node \<Rightarrow> nat \<Rightarrow> (js_error + http_result) list" where
  "fanout_settled env w useMocks i nd cap =
     map (\<lambda>j. snd (runHttpNode env w i (Some j) nd useMocks)) [0..<cap]"

definition fanout_merge :: "node \<Rightarrow> nat \<Rightarrow> (js_error + http_result) list \<Rightarrow> fanout_acc" where
  "fanout_merge nd cap settled =
     fold (\<lambda>j. merge_settled nd cap j (settled ! j)) [0..<length settled]
       \<lparr>merged = [], fan_errors = [], maxAttempts = 1, anyFallback = False\<rparr>"

text \<open>The scope of the run, \<open>{ outputs, context: ctx.context || {}, _origin: spec._origin }\<close>.\<close>

definition run_scope :: "(string \<times> jsval) list \<Rightarrow> jsval \<Rightarrow> jsval \<Rightarrow> jsval" where
  "run_scope outs context origin =
     JObj [(''outputs'', JObj outs), (''context'', or_else context (JObj [])), (''_origin'', origin)]"

definition fanout_base :: "js_env \<Rightarrow> jsval \<Rightarrow> fanout_spec \<Rightarrow> jsval list" where
  "fanout_base env scope f = asRows (or_else (resolvePathLike env scope (fanout_over f)) (JArr []))"

text \<open>The result of the body of the try block: the errors of the fan-out items, and
  either the thrown error or the data, the attempts and the fallback flag.\<close>

definition node_body ::
  "js_env \<Rightarrow> world \<Rightarrow> bool \<Rightarrow> jsval \<Rightarrow> jsval \<Rightarrow> nat \<Rightarrow> node \<Rightarrow> (string \<times> jsval) list
   \<Rightarrow> error_entry list \<times> (js_error + http_result)" where
  "node_body env w useMocks context origin i nd outs =
     (if node_type nd = ''http'' then
        (case node_fanout nd of
           Some f \<Rightarrow>
             if truthy (fanout_over f) then
               (let baseArr = fanout_base env (run_scope outs context origin) f;
                    cap = fanout_cap f (length baseArr);
                    acc = fanout_merge nd cap (fanout_settled env w useMocks i nd cap)
                in (fan_errors acc,
                    Inr \<lparr>data = JObj (map (\<lambda>(k, col). (k, JArr col)) (merged acc)),
                         attempts = maxAttempts acc, fallbackUsed = anyFallback acc\<rparr>))
             else ([], snd (runHttpNode env w i None nd useMocks))
         | None \<Rightarrow> ([], snd (runHttpNode env w i None nd useMocks)))
      else if node_type nd = ''transform'' then
        ([], case runTransformNode env nd outs of
               Inl e \<Rightarrow> Inl e
             | Inr v \<Rightarrow> Inr \<lparr>data = v, attempts = 1, fallbackUsed = False\<rparr>)
      else ([], Inr \<lparr>data = JNull, attempts = 1, fallbackUsed = False\<rparr>))"

subsection \<open>One node\<close>

definition mark_node :: "nat \<Rightarrow> (node_state \<Rightarrow> node_state) \<Rightarrow> node_state list \<Rightarrow> node_state list" where
  "mark_node i f ns = ns[i := f (ns ! i)]"

definition mark_edges :: "(edge \<Rightarrow> bool) \<Rightarrow> status \<Rightarrow> edge_state list \<Rightarrow> edge_state list" where
  "mark_edges P s es = map (\<lambda>e. if P (es_edge e) then e\<lparr>es_status := s\<rparr> else e) es"

text \<open>
  One round of the loop over the nodes. \<open>publish\<close> is the server's \<open>emit\<close>, which appends
  an event to the stream and does not throw.
\<close>

definition exec_node ::
  "js_env \<Rightarrow> world \<Rightarrow> bool \<Rightarrow> jsval \<Rightarrow> jsval \<Rightarrow> nat \<Rightarrow> run_state \<Rightarrow> run_state" where
  "exec_node env w useMocks context origin i st =
     (let nd = ns_node (nodes st ! i);
          ns1 = mark_node i (\<lambda>n. n\<lparr>ns_status := Running\<rparr>) (nodes st);
          es1 = mark_edges (\<lambda>e. edge_to e = node_id nd) Running (edges st);
          ev1 = events st @ [NodeStart (node_id nd) ns1 es1];
          calls = (if node_type nd = ''http'' then apiCalls st + 1 else apiCalls st)
      in case node_body env w useMocks context origin i nd (outputs st) of
           (ferrs, Inr r) \<Rightarrow>
             (let ns2 = mark_node i (\<lambda>n. n\<lparr>ns_status := Completed, ns_latency_ms := Some (elapsed w i)\<rparr>) ns1;
                  es2 = mark_edges (\<lambda>e. edge_from e = node_id nd) Completed es1
              in st\<lparr> outputs := obj_set (outputs st) (node_id nd) (data r),
                     nodes := ns2, edges := es2,
                     runLog := runLog st @ [\<lparr>log_node_id = node_id nd, log_ok = True,
                                              log_attempts = attempts r, log_duration_ms = elapsed w i,
                                              log_fallback_used = Some (fallbackUsed r), log_error = None\<rparr>],
                     errors := errors st @ ferrs,
                     events := ev1 @ [NodeComplete (node_id nd) (elapsed w i) ns2 es2],
                     apiCalls := calls \<rparr>)
         | (ferrs, Inl e) \<Rightarrow>
             (let ns2 = mark_node i (\<lambda>n. n\<lparr>ns_status := Failed, ns_latency_ms := Some (elapsed w i),
                                              ns_error_message := Some (error_text e)\<rparr>) ns1;
                  es2 = mark_edges (\<lambda>e. edge_from e = node_id nd) Failed es1
              in st\<lparr> nodes := ns2, edges := es2,
                     runLog := runLog st @ [\<lparr>log_node_id = node_id nd, log_ok = False,
                                              log_attempts = 1, log_duration_ms = elapsed w i,
                                              log_fallback_used = None, log_error = Some (error_text e)\<rparr>],
                     errors := errors st @ ferrs @ [\<lparr>err_node_id = node_id nd, err_error = error_text e\<rparr>],
                     events := ev1 @ [NodeFail (node_id nd) (elapsed w i) (error_text e) ns2 es2],
                     apiCalls := calls \<rparr>))"

subsection \<open>The pipeline\<close>

text \<open>
  A specification as the planner hands it over: it may be null, and its \<open>nodes\<close> and
  \<open>edges\<close> may be absent or something else than an array.
\<close>

datatype 'a js_field = Absent | NotArray | IsArray "'a list"

record spec =
  spec_nodes :: "node js_field"
  spec_edges :: "edge js_field"
  spec_origin :: jsval

record run_ctx =
  ctx_useMocks :: bool
  ctx_context :: jsval

record run_result =
  res_outputs :: "(string \<times> jsval) list"
  res_log :: "log_entry list"
  res_errors :: "error_entry list"
  res_apiCalls :: nat
  res_state :: run_state

text \<open>The TypeError of a call of \<open>map\<close> on a value that has none (the text of its message
  is the runtime's).\<close>

definition type_error :: js_error where
  "type_error = JsError ''TypeError'' ''Cannot read properties of undefined''"

definition initial_state :: "node list \<Rightarrow> edge list \<Rightarrow> run_state" where
  "initial_state ns es =
     \<lparr> outputs = [],
       nodes = map (\<lambda>n. \<lparr>ns_node = n, ns_status = Pending, ns_latency_ms = None,
                          ns_error_message = None\<rparr>) ns,
       edges = map (\<lambda>e. \<lparr>es_edge = e, es_status = Pending\<rparr>) es,
       runLog = [], errors = [], events = [], apiCalls = 0 \<rparr>"

definition run_nodes :: "js_env \<Rightarrow> world \<Rightarrow> run_ctx \<Rightarrow> jsval \<Rightarrow> run_state \<Rightarrow> run_state" where
  "run_nodes env w ctx origin st =
     fold (exec_node env w (ctx_useMocks ctx) (ctx_context ctx) origin) [0..<length (nodes st)] st"

definition final_outputs :: "(string \<times> jsval) list \<Rightarrow> (string \<times> jsval) list" where
  "final_outputs outs =
     (let joined = get_prop (or_else (get_prop (JObj outs) ''t1_join'') (JArr [])) ''length'';
          o1 = obj_set outs ''ranked_list'' (or_else (get_prop (JObj outs) ''t3_top'') (JArr []));
          o2 = obj_set o1 ''correlation''
                 (JObj [(''x'', JStr ''quality''), (''y'', JStr ''eta_seconds''),
                        (''pearson_r'', nullish_else (get_prop (JObj outs) ''t4_corr'') (JNum 0)),
                        (''n'', joined)])
      in obj_set o2 ''count'' joined)"

text \<open>
  \<open>executePipeline\<close>: \<open>spec.nodes.map\<close> and \<open>spec.edges.map\<close> throw on a null
  specification and on a field that is not an array, so the test
  \<open>!spec || !Array.isArray(nodes)\<close> that follows them never fires. The result also holds
  the state at the end of the loop (the source returns its log, errors and outputs).
\<close>

definition executePipeline ::
  "js_env \<Rightarrow> world \<Rightarrow> spec option \<Rightarrow> run_ctx \<Rightarrow> js_error + run_result" where
  "executePipeline env w sp ctx =
     (case sp of
        None \<Rightarrow> Inl type_error
      | Some s \<Rightarrow>
          (case spec_nodes s of
             IsArray ns \<Rightarrow>
               (case spec_edges s of
                  IsArray es \<Rightarrow>
                    (let st = run_nodes env w ctx (spec_origin s) (initial_state ns es)
                     in Inr \<lparr> res_outputs = final_outputs (outputs st), res_log = runLog st,
                              res_errors = errors st, res_apiCalls = apiCalls st, res_state = st \<rparr>)
                | _ \<Rightarrow> Inl type_error)
           | _ \<Rightarrow> Inl type_error))"

section \<open>The run request\<close>

text \<open>
  The handler of \<open>POST /run\<close> (in \<open>backend/planner.js\<close>): the events it emits and its
  response. The planner is outside the model: it throws, or returns a specification.
  The composition of the summary of a successful response is left out.
\<close>

datatype plan_outcome = PlanThrows js_error | Planned "spec option"

datatype run_event =
    PlanningStart
  | PlanningComplete
  | ExecutionStart
  | Engine event
  | PipelineComplete
  | ErrorEvent string
  | PipelineCompleteError string

record response =
  http_status :: nat
  resp_status :: string
  resp_errors :: "string list"
  resp_result :: "run_result option"

definition invalid_spec :: "spec option \<Rightarrow> bool" where
  "invalid_spec sp =
     (case sp of
        None \<Rightarrow> True
      | Some s \<Rightarrow> (case spec_nodes s of IsArray ns \<Rightarrow> length ns = 0 | _ \<Rightarrow> True))"

definition run_failed :: "run_event list \<Rightarrow> js_error \<Rightarrow> run_event list \<times> response" where
  "run_failed evs e =
     (evs @ [ErrorEvent (error_text e), PipelineCompleteError (error_text e)],
      \<lparr> http_status = 500, resp_status = ''error'', resp_errors = [error_text e],
        resp_result = None \<rparr>)"

definition post_run :: "js_env \<Rightarrow> world \<Rightarrow> bool \<Rightarrow> plan_outcome \<Rightarrow> run_event list \<times> response" where
  "post_run env w useMocks planned =
     (case planned of
        PlanThrows e \<Rightarrow> run_failed [PlanningStart] e
      | Planned sp \<Rightarrow>
          if invalid_spec sp
          then run_failed [PlanningStart] (JsError ''Error'' ''planner produced an empty or invalid spec'')
          else
            (case executePipeline env w sp \<lparr>ctx_useMocks = useMocks, ctx_context = JUndefined\<rparr> of
               Inl e \<Rightarrow> run_failed [PlanningStart, PlanningComplete, ExecutionStart] e
             | Inr r \<Rightarrow>
                 ([PlanningStart, PlanningComplete, ExecutionStart]
                    @ map Engine (events (res_state r)) @ [PipelineComplete],
                  \<lparr> http_status = 200, resp_status = ''ok'',
                    resp_errors = map err_error (res_errors r), resp_result = Some r \<rparr>)))"

text \<open>A world in which every request times out.\<close>

definition sample_world :: world where
  "sample_world =
     \<lparr> respond = (\<lambda>i j n. Fails (JsError ''AxiosError'' ''timeout'')),
       jitter = (\<lambda>i j. 0),
       mock_weather = (\<lambda>i j. JObj []),
       elapsed = (\<lambda>i. 0) \<rparr>"


section \<open>Retries\<close>

text \<open>
  \<open>attempts_made\<close> counts the attempts of a call; \<open>retry_segment nd n m\<close> is the
  sequence of the attempts \<open>n + 1\<close> to \<open>m\<close>, each but the last followed by its delay
  \<open>backoff * 2 ^ (attempt - 1)\<close>; \<open>exhausted_error\<close> is the error that names the count of
  attempts and the last message.
\<close>

fun is_attempt :: "action \<Rightarrow> bool" where
  "is_attempt (Attempt n) = True"
| "is_attempt (Sleep d) = False"

definition attempts_made :: "action list \<Rightarrow> nat" where
  "attempts_made tr = length (filter is_attempt tr)"

fun is_failure :: "attempt_outcome \<Rightarrow> bool" where
  "is_failure (Fails e) = True"
| "is_failure (Responds body) = False"

definition retry_segment :: "node \<Rightarrow> nat \<Rightarrow> nat \<Rightarrow> action list" where
  "retry_segment nd n m =
     concat (map (\<lambda>a. [Attempt a, Sleep (backoff nd * 2 ^ (a - 1))]) [Suc n..<m]) @ [Attempt m]"

definition exhausted_error :: "node \<Rightarrow> nat \<Rightarrow> js_error \<Rightarrow> js_error" where
  "exhausted_error nd m e =
     JsError ''Error'' (''Node '' @ node_id nd @ '' failed after '' @ dec m @ '' attempts: ''
                        @ error_message e)"

definition attempt_result :: "js_env \<Rightarrow> world \<Rightarrow> nat \<Rightarrow> nat option \<Rightarrow> node \<Rightarrow> nat \<Rightarrow> js_error + http_result" where
  "attempt_result env w i j nd m =
     (case respond w i j m of
        Responds body \<Rightarrow>
          Inr \<lparr>data = applyMap env body (node_map nd), attempts = m, fallbackUsed = False\<rparr>
      | Fails e \<Rightarrow> Inl (if node_fallback nd then exhausted_error nd m e else e))"

lemma attempts_made_segment: "n < m \<Longrightarrow> attempts_made (retry_segment nd n m) = m - n"
proof (induction "m - n" arbitrary: n)
  case 0
  then show ?case by simp
next
  case (Suc k)
  show ?case
  proof (cases "Suc n = m")
    case True
    then show ?thesis by (simp add: attempts_made_def retry_segment_def)
  next
    case False
    with Suc.prems have lt: "Suc n < m" by simp
    have "k = m - Suc n" using Suc.hyps(2) by simp
    from Suc.hyps(1)[OF this lt] have ih: "attempts_made (retry_segment nd (Suc n) m) = m - Suc n" .
    have "retry_segment nd n m = Attempt (Suc n) # Sleep (backoff nd * 2 ^ n) # retry_segment nd (Suc n) m"
      using lt by (simp add: retry_segment_def upt_conv_Cons)
    then show ?thesis using ih lt by (simp add: attempts_made_def)
  qed
qed

lemma http_attempts_shape:
  "n \<le> maxRetries nd \<Longrightarrow>
   \<exists>m. n < m \<and> m \<le> maxRetries nd + 1
     \<and> list_all (\<lambda>a. is_failure (respond w i j a)) [Suc n..<m]
     \<and> (is_failure (respond w i j m) \<longrightarrow> m = maxRetries nd + 1)
     \<and> http_attempts env w i j nd n = (retry_segment nd n m, attempt_result env w i j nd m)"
proof (induction env w i j nd n rule: http_attempts.induct)
  case (1 env w i j nd n)
  show ?case
  proof (cases "respond w i j (Suc n)")
    case (Responds body)
    then have "http_attempts env w i j nd n = (retry_segment nd n (Suc n), attempt_result env w i j nd (Suc n))"
      using "1.prems" by (simp add: http_attempts.simps[of env w i j nd n] retry_segment_def attempt_result_def)
    then show ?thesis using "1.prems" Responds
      by (intro exI[of _ "Suc n"]) simp
  next
    case (Fails e)
    show ?thesis
    proof (cases "Suc n > maxRetries nd")
      case True
      then have "http_attempts env w i j nd n = (retry_segment nd n (Suc n), attempt_result env w i j nd (Suc n))"
        using "1.prems" Fails
        by (simp add: http_attempts.simps[of env w i j nd n] retry_segment_def attempt_result_def exhausted_error_def)
      then show ?thesis using "1.prems" True
        by (intro exI[of _ "Suc n"]) simp
    next
      case False
      then have le: "Suc n \<le> maxRetries nd" by simp
      from "1.IH"[OF "1.prems" Fails False le]
      obtain m where m: "Suc n < m" "m \<le> maxRetries nd + 1"
        "list_all (\<lambda>a. is_failure (respond w i j a)) [Suc (Suc n)..<m]"
        "is_failure (respond w i j m) \<longrightarrow> m = maxRetries nd + 1"
        "http_attempts env w i j nd (Suc n) = (retry_segment nd (Suc n) m, attempt_result env w i j nd m)"
        by blast
      have seg: "retry_segment nd n m = Attempt (Suc n) # Sleep (backoff nd * 2 ^ n) # retry_segment nd (Suc n) m"
        using m(1) by (simp add: retry_segment_def upt_conv_Cons)
      have "http_attempts env w i j nd n = (retry_segment nd n m, attempt_result env w i j nd m)"
        using "1.prems" Fails False m(5) seg
        by (simp add: http_attempts.simps[of env w i j nd n])
      moreover have "list_all (\<lambda>a. is_failure (respond w i j a)) [Suc n..<m]"
        using m(1,3) Fails by (simp add: upt_conv_Cons)
      ultimately show ?thesis using m(1,2,4)
        by (intro exI[of _ m]) simp
    qed
  qed
qed

text \<open>A node with one retry, a backoff of 100 ms and no fallback.\<close>

definition retry_node :: node where
  "retry_node =
     \<lparr> node_id = ''n2_eta'', node_type = ''http'', node_fn = [], node_args = JUndefined,
       node_retry = Some \<lparr>retry_times = Some 1, retry_backoff_ms = Some 100\<rparr>,
       node_fallback = False, node_map = None, node_fanout = None \<rparr>"

text \<open>
  C3, as amended: in live mode a call makes between one and \<open>times + 1\<close> attempts; every
  attempt before the last one failed and is followed by the delay
  \<open>backoff_ms * 2 ^ (attempt - 1)\<close>; a last attempt that succeeds gives the mapped data and
  the count of attempts; a last attempt that fails is attempt \<open>times + 1\<close>, and the call
  throws the error that names the count of attempts and the last message when the node
  declares a fallback, and the error of the last attempt itself when it declares none.
\<close>

theorem runHttpNode_retry:
  "fst (runHttpNode env w i j nd False)
     = retry_segment nd 0 (attempts_made (fst (runHttpNode env w i j nd False)))
   \<and> 1 \<le> attempts_made (fst (runHttpNode env w i j nd False))
   \<and> attempts_made (fst (runHttpNode env w i j nd False)) \<le> maxRetries nd + 1
   \<and> list_all (\<lambda>a. is_failure (respond w i j a))
        [1..<attempts_made (fst (runHttpNode env w i j nd False))]
   \<and> (\<forall>body. respond w i j (attempts_made (fst (runHttpNode env w i j nd False))) = Responds body \<longrightarrow>
         snd (runHttpNode env w i j nd False)
           = Inr \<lparr>data = applyMap env body (node_map nd),
                  attempts = attempts_made (fst (runHttpNode env w i j nd False)),
                  fallbackUsed = False\<rparr>)
   \<and> (\<forall>e. respond w i j (attempts_made (fst (runHttpNode env w i j nd False))) = Fails e \<longrightarrow>
         attempts_made (fst (runHttpNode env w i j nd False)) = maxRetries nd + 1
         \<and> snd (runHttpNode env w i j nd False)
             = Inl (if node_fallback nd then exhausted_error nd (maxRetries nd + 1) e else e))"
proof -
  obtain m where m: "0 < m" "m \<le> maxRetries nd + 1"
      "list_all (\<lambda>a. is_failure (respond w i j a)) [Suc 0..<m]"
      "is_failure (respond w i j m) \<longrightarrow> m = maxRetries nd + 1"
      "http_attempts env w i j nd 0 = (retry_segment nd 0 m, attempt_result env w i j nd m)"
    using http_attempts_shape[of 0 nd w i j env] by auto
  have run: "runHttpNode env w i j nd False = (retry_segment nd 0 m, attempt_result env w i j nd m)"
    by (simp add: runHttpNode_def m(5))
  have cnt: "attempts_made (retry_segment nd 0 m) = m"
    using attempts_made_segment[OF m(1), of nd] by simp
  have ok: "snd (runHttpNode env w i j nd False)
           = Inr \<lparr>data = applyMap env body (node_map nd), attempts = m, fallbackUsed = False\<rparr>"
    if "respond w i j m = Responds body" for body
    using that by (simp add: run attempt_result_def)
  have ko: "m = maxRetries nd + 1 \<and> snd (runHttpNode env w i j nd False)
             = Inl (if node_fallback nd then exhausted_error nd (maxRetries nd + 1) e else e)"
    if "respond w i j m = Fails e" for e
    using that m(4) by (simp add: run attempt_result_def)
  show ?thesis
    using m(1,2,3) ok ko by (simp add: run cnt)
qed

lemma retry_node_run:
  "runHttpNode sample_env sample_world 0 None retry_node False
     = ([Attempt 1, Sleep 100, Attempt 2], Inl (JsError ''AxiosError'' ''timeout''))"
  by (simp add: runHttpNode_def http_attempts.simps maxRetries_def backoff_def retry_node_def
      sample_world_def)

theorem runHttpNode_retry_witness:
  "respond sample_world 0 None 2 = Fails (JsError ''AxiosError'' ''timeout'')
   \<and> attempts_made (fst (runHttpNode sample_env sample_world 0 None retry_node False)) = 2
   \<and> snd (runHttpNode sample_env sample_world 0 None retry_node False)
       = Inl (JsError ''AxiosError'' ''timeout'')"
proof -
  have a: "attempts_made (fst (runHttpNode sample_env sample_world 0 None retry_node False)) = 2"
    by (simp add: retry_node_run attempts_made_def)
  have r: "respond sample_world 0 None 2 = Fails (JsError ''AxiosError'' ''timeout'')"
    by (simp add: sample_world_def)
  have f: "\<not> node_fallback retry_node"
    by (simp add: retry_node_def)
  from runHttpNode_retry[of sample_env sample_world 0 None retry_node] a r f
  show ?thesis
    by simp
qed

text \<open>
  C3, as stated, fails for a node without a fallback: after two failed attempts the
  error thrown is the error of the second attempt, whose text is \<open>timeout\<close>; it does not
  carry the count of attempts.
\<close>

theorem retry_error_without_count:
  "runHttpNode sample_env sample_world 0 None retry_node False
     = ([Attempt 1, Sleep 100, Attempt 2], Inl (JsError ''AxiosError'' ''timeout''))
   \<and> error_text (JsError ''AxiosError'' ''timeout'') = ''timeout''
   \<and> JsError ''AxiosError'' ''timeout''
       \<noteq> exhausted_error retry_node 2 (JsError ''AxiosError'' ''timeout'')"
  by (simp add: retry_node_run exhausted_error_def)

section \<open>Unknown transforms\<close>

text \<open>The five names the transform runner knows, and the value it returns for any other
  name: the input named by \<open>args.from\<close>, null when there is none.\<close>

definition known_transforms :: "string list" where
  "known_transforms = [''join_on_index'', ''compute_osm_quality'', ''compute_score'', ''top_n'', ''correlation'']"

definition passed_input :: "js_env \<Rightarrow> node \<Rightarrow> (string \<times> jsval) list \<Rightarrow> jsval" where
  "passed_input env nd outs =
     nullish_else (resolvePathLike env (JObj [(''outputs'', JObj outs)]) (get_prop (node_args nd) ''from''))
       JNull"

lemma runTransformNode_unknown:
  assumes "node_fn nd \<notin> set known_transforms"
  shows "runTransformNode env nd outs = Inr (passed_input env nd outs)"
  using assms by (simp add: runTransformNode_def known_transforms_def passed_input_def Let_def)

lemma node_body_unknown:
  assumes "node_type nd = ''transform''" and "node_fn nd \<notin> set known_transforms"
  shows "node_body env w useMocks context origin i nd outs
           = ([], Inr \<lparr>data = passed_input env nd outs, attempts = 1, fallbackUsed = False\<rparr>)"
  using assms by (simp add: node_body_def runTransformNode_unknown)

text \<open>
  C2, as amended: a transform node whose \<open>fn\<close> is none of the five known names does not
  fail. The transform runner returns the input named by \<open>args.from\<close> (null when there is
  none); the engine stores it as the output of the node, marks the node completed, logs
  it as ok with one attempt and records no error.
\<close>

theorem unknown_transform_passes_input:
  assumes "node_type nd = ''transform''" and "node_fn nd \<notin> set known_transforms"
      and "i < length (nodes st)" and "ns_node (nodes st ! i) = nd"
  shows "runTransformNode env nd (outputs st) = Inr (passed_input env nd (outputs st))
    \<and> ns_status (nodes (exec_node env w useMocks context origin i st) ! i) = Completed
    \<and> errors (exec_node env w useMocks context origin i st) = errors st
    \<and> outputs (exec_node env w useMocks context origin i st)
        = obj_set (outputs st) (node_id nd) (passed_input env nd (outputs st))
    \<and> runLog (exec_node env w useMocks context origin i st)
        = runLog st @ [\<lparr>log_node_id = node_id nd, log_ok = True, log_attempts = 1,
                         log_duration_ms = elapsed w i, log_fallback_used = Some False,
                         log_error = None\<rparr>]"
  using assms
  by (simp add: runTransformNode_unknown exec_node_def node_body_unknown Let_def mark_node_def)

text \<open>A specification of one transform node with the unknown function \<open>median\<close>.\<close>

definition unknown_node :: node where
  "unknown_node =
     \<lparr> node_id = ''t9'', node_type = ''transform'', node_fn = ''median'', node_args = JUndefined,
       node_retry = None, node_fallback = False, node_map = None, node_fanout = None \<rparr>"

definition unknown_spec :: spec where
  "unknown_spec = \<lparr> spec_nodes = IsArray [unknown_node], spec_edges = IsArray [], spec_origin = JUndefined \<rparr>"

lemma unknown_run:
  "run_nodes sample_env sample_world \<lparr>ctx_useMocks = False, ctx_context = JUndefined\<rparr> JUndefined
     (initial_state [unknown_node] [])
   = exec_node sample_env sample_world False JUndefined JUndefined 0 (initial_state [unknown_node] [])"
  by (simp add: run_nodes_def initial_state_def)

lemma unknown_node_facts:
  "node_type unknown_node = ''transform''" "node_fn unknown_node \<notin> set known_transforms"
  "0 < length (nodes (initial_state [unknown_node] []))"
  "ns_node (nodes (initial_state [unknown_node] []) ! 0) = unknown_node"
  by (simp_all add: unknown_node_def known_transforms_def initial_state_def)

theorem unknown_transform_passes_input_witness:
  "node_fn unknown_node \<notin> set known_transforms
   \<and> ns_status (nodes (exec_node sample_env sample_world False JUndefined JUndefined 0
                         (initial_state [unknown_node] [])) ! 0) = Completed
   \<and> errors (exec_node sample_env sample_world False JUndefined JUndefined 0
                (initial_state [unknown_node] [])) = []"
proof -
  from unknown_transform_passes_input[OF unknown_node_facts, of sample_env sample_world False JUndefined JUndefined]
  show ?thesis
    by (simp add: unknown_node_facts(2)) (simp add: initial_state_def)
qed

text \<open>
  C2, as stated, fails: the run of the specification above ends with the node completed,
  an empty error list and null stored as the output of the node.
\<close>

theorem unknown_transform_not_a_failure:
  "\<not> isl (executePipeline sample_env sample_world (Some unknown_spec)
            \<lparr>ctx_useMocks = False, ctx_context = JUndefined\<rparr>)
   \<and> map ns_status (nodes (res_state (projr (executePipeline sample_env sample_world (Some unknown_spec)
            \<lparr>ctx_useMocks = False, ctx_context = JUndefined\<rparr>)))) = [Completed]
   \<and> res_errors (projr (executePipeline sample_env sample_world (Some unknown_spec)
            \<lparr>ctx_useMocks = False, ctx_context = JUndefined\<rparr>)) = []
   \<and> outputs (res_state (projr (executePipeline sample_env sample_world (Some unknown_spec)
            \<lparr>ctx_useMocks = False, ctx_context = JUndefined\<rparr>))) = [(''t9'', JNull)]"
proof -
  have pi: "passed_input sample_env unknown_node [] = JNull"
    by (simp add: passed_input_def unknown_node_def nullish_else_def)
  have ex: "exec_node sample_env sample_world False JUndefined JUndefined 0 (initial_state [unknown_node] [])
      = \<lparr> outputs = [(''t9'', JNull)],
          nodes = [\<lparr>ns_node = unknown_node, ns_status = Completed, ns_latency_ms = Some 0,
                    ns_error_message = None\<rparr>],
          edges = [],
          runLog = [\<lparr>log_node_id = ''t9'', log_ok = True, log_attempts = 1, log_duration_ms = 0,
                     log_fallback_used = Some False, log_error = None\<rparr>],
          errors = [],
          events = [NodeStart ''t9'' [\<lparr>ns_node = unknown_node, ns_status = Running,
                                        ns_latency_ms = None, ns_error_message = None\<rparr>] [],
                    NodeComplete ''t9'' 0 [\<lparr>ns_node = unknown_node, ns_status = Completed,
                                             ns_latency_ms = Some 0, ns_error_message = None\<rparr>] []],
          apiCalls = 0 \<rparr>"
    using unknown_node_facts(1,2)
    by (simp add: exec_node_def node_body_unknown pi Let_def mark_node_def mark_edges_def
        initial_state_def sample_world_def)
       (simp add: unknown_node_def)
  show ?thesis
    by (simp add: executePipeline_def unknown_spec_def unknown_run ex)
qed

section \<open>Invalid specifications\<close>

definition invalid_spec_text :: string where
  "invalid_spec_text = ''planner produced an empty or invalid spec''"

text \<open>
  C8: when the specification is null, or its \<open>nodes\<close> are absent, not a list or the empty
  list, the run request emits \<open>planning_start\<close>, then the top-level \<open>error\<close> event and the
  failed \<open>pipeline_complete\<close>, and answers with status 500; no event of the engine is
  emitted and there is no run result. It is the request handler that rejects the empty
  list: \<open>executePipeline\<close> itself throws on a null specification and on \<open>nodes\<close> that are
  not a list, and on an empty list it returns a run in which nothing was executed.
\<close>

theorem invalid_spec_rejected:
  assumes "sp = None
           \<or> (\<exists>s. sp = Some s
                \<and> (spec_nodes s = Absent \<or> spec_nodes s = NotArray \<or> spec_nodes s = IsArray []))"
  shows "post_run env w useMocks (Planned sp)
           = ([PlanningStart, ErrorEvent invalid_spec_text, PipelineCompleteError invalid_spec_text],
              \<lparr> http_status = 500, resp_status = ''error'', resp_errors = [invalid_spec_text],
                resp_result = None \<rparr>)
         \<and> (\<forall>ev. Engine ev \<notin> set (fst (post_run env w useMocks (Planned sp))))
         \<and> (case executePipeline env w sp ctx of
               Inl e \<Rightarrow> True
             | Inr r \<Rightarrow> events (res_state r) = [] \<and> outputs (res_state r) = []
                        \<and> nodes (res_state r) = [])"
proof -
  have inv: "invalid_spec sp"
    using assms by (auto simp: invalid_spec_def)
  have run: "post_run env w useMocks (Planned sp)
           = ([PlanningStart, ErrorEvent invalid_spec_text, PipelineCompleteError invalid_spec_text],
              \<lparr> http_status = 500, resp_status = ''error'', resp_errors = [invalid_spec_text],
                resp_result = None \<rparr>)"
    using inv by (simp add: post_run_def run_failed_def invalid_spec_text_def)
  have eng: "case executePipeline env w sp ctx of
               Inl e \<Rightarrow> True
             | Inr r \<Rightarrow> events (res_state r) = [] \<and> outputs (res_state r) = []
                        \<and> nodes (res_state r) = []"
    using assms
    by (auto simp: executePipeline_def run_nodes_def initial_state_def
        split: option.splits js_field.splits)
  show ?thesis
    using eng by (simp add: run)
qed

definition empty_spec :: spec where
  "empty_spec = \<lparr> spec_nodes = IsArray [], spec_edges = IsArray [], spec_origin = JUndefined \<rparr>"

theorem invalid_spec_rejected_witness:
  "spec_nodes empty_spec = IsArray []
   \<and> fst (post_run sample_env sample_world False (Planned (Some empty_spec)))
       = [PlanningStart, ErrorEvent invalid_spec_text, PipelineCompleteError invalid_spec_text]
   \<and> http_status (snd (post_run sample_env sample_world False (Planned (Some empty_spec)))) = 500"
proof -
  have h: "spec_nodes empty_spec = IsArray []"
    by (simp add: empty_spec_def)
  then have "Some empty_spec = None
           \<or> (\<exists>s. Some empty_spec = Some s
                \<and> (spec_nodes s = Absent \<or> spec_nodes s = NotArray \<or> spec_nodes s = IsArray []))"
    by simp
  from invalid_spec_rejected[OF this, of sample_env sample_world False] h
  show ?thesis
    by simp
qed

section \<open>The order of execution\<close>

text \<open>
  An event names a node and the status the node has just been given, and carries the
  status of every node at that moment. \<open>run_schedule ids fin\<close> is the sequence in which
  node after node is first running and then in its final status \<open>fin ! i\<close>;
  \<open>run_snapshots n fin\<close> is the sequence of the statuses of all \<open>n\<close> nodes along that
  schedule: when node \<open>i\<close> is running the nodes before it are in their final status and
  the nodes after it are pending.
\<close>

fun event_tag :: "event \<Rightarrow> string \<times> status" where
  "event_tag (NodeStart i ns es) = (i, Running)"
| "event_tag (NodeComplete i l ns es) = (i, Completed)"
| "event_tag (NodeFail i d m ns es) = (i, Failed)"

fun event_statuses :: "event \<Rightarrow> status list" where
  "event_statuses (NodeStart i ns es) = map ns_status ns"
| "event_statuses (NodeComplete i l ns es) = map ns_status ns"
| "event_statuses (NodeFail i d m ns es) = map ns_status ns"

definition run_schedule :: "string list \<Rightarrow> status list \<Rightarrow> (string \<times> status) list" where
  "run_schedule ids fin =
     concat (map (\<lambda>i. [(ids ! i, Running), (ids ! i, fin ! i)]) [0..<length fin])"

definition run_snapshots :: "nat \<Rightarrow> status list \<Rightarrow> status list list" where
  "run_snapshots n fin =
     concat (map (\<lambda>i. [take i fin @ Running # replicate (n - Suc i) Pending,
                        take (Suc i) fin @ replicate (n - Suc i) Pending])
               [0..<length fin])"

definition terminal :: "status \<Rightarrow> bool" where
  "terminal t = (t = Completed \<or> t = Failed)"

lemma concat_map_upt_Suc: "concat (map f [0..<Suc k]) = concat (map f [0..<k]) @ f k"
  by simp

lemma run_schedule_snoc:
  "run_schedule ids (T @ [t]) = run_schedule ids T @ [(ids ! length T, Running), (ids ! length T, t)]"
proof -
  let ?F = "\<lambda>i. [(ids ! i, Running), (ids ! i, (T @ [t]) ! i)]"
  let ?G = "\<lambda>i. [(ids ! i, Running), (ids ! i, T ! i)]"
  have eq: "map ?F [0..<length T] = map ?G [0..<length T]"
    by (rule map_cong[OF refl]) (simp add: nth_append)
  have "run_schedule ids (T @ [t]) = concat (map ?F [0..<Suc (length T)])"
    by (simp only: run_schedule_def length_append_singleton)
  also have "\<dots> = concat (map ?F [0..<length T]) @ ?F (length T)"
    by (rule concat_map_upt_Suc)
  also have "\<dots> = concat (map ?G [0..<length T]) @ ?F (length T)"
    by (simp only: eq)
  also have "\<dots> = run_schedule ids T @ [(ids ! length T, Running), (ids ! length T, t)]"
    by (simp add: run_schedule_def)
  finally show ?thesis .
qed

lemma run_snapshots_snoc:
  "run_snapshots n (T @ [t]) =
     run_snapshots n T @ [T @ Running # replicate (n - Suc (length T)) Pending,
                          T @ t # replicate (n - Suc (length T)) Pending]"
proof -
  let ?F = "\<lambda>i. [take i (T @ [t]) @ Running # replicate (n - Suc i) Pending,
                   take (Suc i) (T @ [t]) @ replicate (n - Suc i) Pending]"
  let ?G = "\<lambda>i. [take i T @ Running # replicate (n - Suc i) Pending,
                   take (Suc i) T @ replicate (n - Suc i) Pending]"
  have eq: "map ?F [0..<length T] = map ?G [0..<length T]"
    by (rule map_cong[OF refl]) simp
  have "run_snapshots n (T @ [t]) = concat (map ?F [0..<Suc (length T)])"
    by (simp only: run_snapshots_def length_append_singleton)
  also have "\<dots> = concat (map ?F [0..<length T]) @ ?F (length T)"
    by (rule concat_map_upt_Suc)
  also have "\<dots> = concat (map ?G [0..<length T]) @ ?F (length T)"
    by (simp only: eq)
  also have "\<dots> = run_snapshots n T @ [T @ Running # replicate (n - Suc (length T)) Pending,
                          T @ t # replicate (n - Suc (length T)) Pending]"
    by (simp add: run_snapshots_def)
  finally show ?thesis .
qed

lemma exec_node_step:
  assumes "i < length (nodes st)"
  shows "\<exists>t v. terminal t
    \<and> map ns_status (nodes (exec_node env w um cx og i st)) = (map ns_status (nodes st))[i := t]
    \<and> map ns_node (nodes (exec_node env w um cx og i st)) = map ns_node (nodes st)
    \<and> map event_tag (events (exec_node env w um cx og i st))
        = map event_tag (events st)
          @ [(node_id (ns_node (nodes st ! i)), Running), (node_id (ns_node (nodes st ! i)), t)]
    \<and> map event_statuses (events (exec_node env w um cx og i st))
        = map event_statuses (events st)
          @ [(map ns_status (nodes st))[i := Running], (map ns_status (nodes st))[i := t]]
    \<and> outputs (exec_node env w um cx og i st)
        = (if t = Completed then obj_set (outputs st) (node_id (ns_node (nodes st ! i))) v
           else outputs st)"
proof (cases "node_body env w um cx og i (ns_node (nodes st ! i)) (outputs st)")
  case (Pair ferrs res)
  show ?thesis
  proof (cases res)
    case (Inl e)
    show ?thesis
      apply (rule exI[of _ Failed])
      apply (rule exI[of _ JNull])
      using assms Pair Inl
      apply (simp add: exec_node_def Let_def mark_node_def terminal_def map_update)
      apply (simp add: list_eq_iff_nth_eq nth_list_update)
      done
  next
    case (Inr r)
    show ?thesis
      apply (rule exI[of _ Completed])
      apply (rule exI[of _ "data r"])
      using assms Pair Inr
      apply (simp add: exec_node_def Let_def mark_node_def terminal_def map_update)
      apply (simp add: list_eq_iff_nth_eq nth_list_update)
      done
  qed
qed

lemma update_pending_block:
  assumes "length T = k" and "k < n"
  shows "(T @ replicate (n - k) Pending)[k := x] = T @ x # replicate (n - Suc k) Pending"
proof -
  have "replicate (n - k) Pending = Pending # replicate (n - Suc k) Pending"
    using assms(2) by (simp add: Suc_diff_Suc flip: replicate_Suc)
  then show ?thesis
    using assms(1) by (simp add: list_update_append)
qed

lemma fst_set_obj_set: "fst ` set (obj_set kvs k v) = insert k (fst ` set kvs)"
proof (induction kvs)
  case Nil
  show ?case by simp
next
  case (Cons p kvs)
  obtain a b where p: "p = (a, b)" by (cases p)
  show ?case
  proof (cases "a = k")
    case True
    then show ?thesis by (simp add: p)
  next
    case False
    then show ?thesis using Cons by (simp add: p insert_commute)
  qed
qed

text \<open>The state after the first \<open>k\<close> rounds of the loop.\<close>

definition run_prefix :: "js_env \<Rightarrow> world \<Rightarrow> run_ctx \<Rightarrow> jsval \<Rightarrow> node list \<Rightarrow> edge list \<Rightarrow> nat \<Rightarrow> run_state" where
  "run_prefix env w ctx origin ns es k =
     fold (exec_node env w (ctx_useMocks ctx) (ctx_context ctx) origin) [0..<k] (initial_state ns es)"

lemma run_prefix_Suc:
  "run_prefix env w ctx origin ns es (Suc k)
     = exec_node env w (ctx_useMocks ctx) (ctx_context ctx) origin k (run_prefix env w ctx origin ns es k)"
  by (simp add: run_prefix_def)

lemma completed_ids_snoc:
  "{f i | i. i < Suc (length T) \<and> (T @ [t]) ! i = Completed}
     = (if t = Completed then insert (f (length T)) {f i | i. i < length T \<and> T ! i = Completed}
        else {f i | i. i < length T \<and> T ! i = Completed})"
proof -
  have a: "(i < Suc (length T) \<and> (T @ [t]) ! i = Completed)
        = ((i < length T \<and> T ! i = Completed) \<or> (i = length T \<and> t = Completed))" for i
    by (cases "i < length T") (auto simp: nth_append)
  show ?thesis
    unfolding a by auto
qed

lemma run_prefix_invariant:
  assumes "k \<le> length ns"
  shows "\<exists>T. length T = k \<and> list_all terminal T
    \<and> map ns_node (nodes (run_prefix env w ctx origin ns es k)) = ns
    \<and> map ns_status (nodes (run_prefix env w ctx origin ns es k)) = T @ replicate (length ns - k) Pending
    \<and> map event_tag (events (run_prefix env w ctx origin ns es k)) = run_schedule (map node_id ns) T
    \<and> map event_statuses (events (run_prefix env w ctx origin ns es k)) = run_snapshots (length ns) T
    \<and> fst ` set (outputs (run_prefix env w ctx origin ns es k))
        = {node_id (ns ! i) | i. i < k \<and> T ! i = Completed}"
  using assms
proof (induction k)
  case 0
  show ?case
    by (rule exI[of _ "[]"])
       (simp add: run_prefix_def initial_state_def run_schedule_def run_snapshots_def comp_def
          map_replicate_const)
next
  case (Suc k)
  let ?st = "run_prefix env w ctx origin ns es k"
  let ?st' = "run_prefix env w ctx origin ns es (Suc k)"
  from Suc obtain T where T: "length T = k" "list_all terminal T"
      "map ns_node (nodes ?st) = ns"
      "map ns_status (nodes ?st) = T @ replicate (length ns - k) Pending"
      "map event_tag (events ?st) = run_schedule (map node_id ns) T"
      "map event_statuses (events ?st) = run_snapshots (length ns) T"
      "fst ` set (outputs ?st) = {node_id (ns ! i) | i. i < k \<and> T ! i = Completed}"
    by auto
  have kn: "k < length ns" using Suc.prems by simp
  have len: "length (nodes ?st) = length ns"
    using T(3) by (metis length_map)
  then have k_lt: "k < length (nodes ?st)" using kn by simp
  have nk: "ns_node (nodes ?st ! k) = ns ! k"
    using T(3) k_lt by (metis nth_map)
  from exec_node_step[OF k_lt, of env w "ctx_useMocks ctx" "ctx_context ctx" origin]
  obtain t v where tv: "terminal t"
      "map ns_status (nodes ?st') = (map ns_status (nodes ?st))[k := t]"
      "map ns_node (nodes ?st') = map ns_node (nodes ?st)"
      "map event_tag (events ?st') = map event_tag (events ?st)
          @ [(node_id (ns_node (nodes ?st ! k)), Running), (node_id (ns_node (nodes ?st ! k)), t)]"
      "map event_statuses (events ?st') = map event_statuses (events ?st)
          @ [(map ns_status (nodes ?st))[k := Running], (map ns_status (nodes ?st))[k := t]]"
      "outputs ?st' = (if t = Completed then obj_set (outputs ?st) (node_id (ns_node (nodes ?st ! k))) v
           else outputs ?st)"
    unfolding run_prefix_Suc by blast
  have upd: "(map ns_status (nodes ?st))[k := x] = T @ x # replicate (length ns - Suc k) Pending" for x
    by (simp only: T(4) update_pending_block[OF T(1) kn])
  have s1: "map ns_status (nodes ?st') = (T @ [t]) @ replicate (length ns - Suc k) Pending"
    by (simp only: tv(2) upd append_assoc append_Cons append_Nil)
  have idk: "map node_id ns ! length T = node_id (ns ! k)"
    using kn by (simp only: T(1) nth_map)
  have s2: "map event_tag (events ?st') = run_schedule (map node_id ns) (T @ [t])"
    by (simp only: tv(4) T(5) run_schedule_snoc nk idk)
  have s3: "map event_statuses (events ?st') = run_snapshots (length ns) (T @ [t])"
    by (simp only: tv(5) T(6) upd run_snapshots_snoc T(1))
  have s4: "fst ` set (outputs ?st') = {node_id (ns ! i) | i. i < Suc k \<and> (T @ [t]) ! i = Completed}"
  proof -
    have "fst ` set (outputs ?st')
        = (if t = Completed
           then insert (node_id (ns ! k)) {node_id (ns ! i) | i. i < k \<and> T ! i = Completed}
           else {node_id (ns ! i) | i. i < k \<and> T ! i = Completed})"
      by (simp add: tv(6) fst_set_obj_set nk T(7))
    also have "\<dots> = {node_id (ns ! i) | i. i < Suc k \<and> (T @ [t]) ! i = Completed}"
      using completed_ids_snoc[of "\<lambda>i. node_id (ns ! i)" T t] by (simp only: T(1))
    finally show ?thesis .
  qed
  show ?case
    apply (rule exI[of _ "T @ [t]"])
    using T(1,2,3) tv(1,3) s1 s2 s3 s4 by simp
qed

lemma executePipeline_run:
  assumes "spec_nodes s = IsArray ns" and "spec_edges s = IsArray es"
  shows "executePipeline env w (Some s) ctx
    = Inr \<lparr> res_outputs = final_outputs (outputs (run_prefix env w ctx (spec_origin s) ns es (length ns))),
            res_log = runLog (run_prefix env w ctx (spec_origin s) ns es (length ns)),
            res_errors = errors (run_prefix env w ctx (spec_origin s) ns es (length ns)),
            res_apiCalls = apiCalls (run_prefix env w ctx (spec_origin s) ns es (length ns)),
            res_state = run_prefix env w ctx (spec_origin s) ns es (length ns) \<rparr>"
proof -
  have "run_nodes env w ctx (spec_origin s) (initial_state ns es)
      = run_prefix env w ctx (spec_origin s) ns es (length ns)"
    by (simp add: run_nodes_def run_prefix_def initial_state_def)
  then show ?thesis
    using assms by (simp add: executePipeline_def Let_def)
qed

lemma run_prefix_complete:
  "map ns_node (nodes (run_prefix env w ctx origin ns es (length ns))) = ns
   \<and> list_all terminal (map ns_status (nodes (run_prefix env w ctx origin ns es (length ns))))
   \<and> map event_tag (events (run_prefix env w ctx origin ns es (length ns)))
       = run_schedule (map node_id ns)
           (map ns_status (nodes (run_prefix env w ctx origin ns es (length ns))))
   \<and> map event_statuses (events (run_prefix env w ctx origin ns es (length ns)))
       = run_snapshots (length ns)
           (map ns_status (nodes (run_prefix env w ctx origin ns es (length ns))))
   \<and> fst ` set (outputs (run_prefix env w ctx origin ns es (length ns)))
       = {node_id (ns ! i) | i. i < length ns
            \<and> map ns_status (nodes (run_prefix env w ctx origin ns es (length ns))) ! i = Completed}"
proof -
  let ?st = "run_prefix env w ctx origin ns es (length ns)"
  from run_prefix_invariant[OF le_refl, of ns env w ctx origin es]
  obtain T where T: "length T = length ns" "list_all terminal T"
      "map ns_node (nodes ?st) = ns"
      "map ns_status (nodes ?st) = T @ replicate (length ns - length ns) Pending"
      "map event_tag (events ?st) = run_schedule (map node_id ns) T"
      "map event_statuses (events ?st) = run_snapshots (length ns) T"
      "fst ` set (outputs ?st) = {node_id (ns ! i) | i. i < length ns \<and> T ! i = Completed}"
    by blast
  have fin: "T = map ns_status (nodes ?st)"
    using T(4) by simp
  show ?thesis
    using T(2,3,5,6,7) unfolding fin by blast
qed

text \<open>
  C5: a run over a list of nodes returns; every node ends completed or failed; the
  events are, node after node in list order, the start of the node and then its
  completion or failure; and at the start of a node every earlier node is in its final
  status and every later node is pending, so that a node is marked running only after
  its predecessor is terminal, and a failure does not keep the later nodes from running.
\<close>

theorem nodes_run_in_order:
  assumes "spec_nodes s = IsArray ns" and "spec_edges s = IsArray es"
  shows "\<exists>r. executePipeline env w (Some s) ctx = Inr r
     \<and> map ns_node (nodes (res_state r)) = ns
     \<and> list_all terminal (map ns_status (nodes (res_state r)))
     \<and> map event_tag (events (res_state r))
         = run_schedule (map node_id ns) (map ns_status (nodes (res_state r)))
     \<and> map event_statuses (events (res_state r))
         = run_snapshots (length ns) (map ns_status (nodes (res_state r)))"
  unfolding executePipeline_run[OF assms]
  using run_prefix_complete[of env w ctx "spec_origin s" ns es] by simp

text \<open>A specification of two nodes: an HTTP node whose requests time out, then the
  transform node with the unknown function.\<close>

definition two_node_spec :: spec where
  "two_node_spec =
     \<lparr> spec_nodes = IsArray [retry_node, unknown_node],
       spec_edges = IsArray [\<lparr>edge_from = ''n2_eta'', edge_to = ''t9''\<rparr>],
       spec_origin = JUndefined \<rparr>"

definition live_ctx :: run_ctx where
  "live_ctx = \<lparr>ctx_useMocks = False, ctx_context = JUndefined\<rparr>"

lemma two_node_bodies:
  "node_body sample_env sample_world False JUndefined JUndefined i retry_node outs
     = ([], Inl (JsError ''AxiosError'' ''timeout''))"
  "node_body sample_env sample_world False JUndefined JUndefined i unknown_node outs
     = ([], Inr \<lparr>data = passed_input sample_env unknown_node outs, attempts = 1, fallbackUsed = False\<rparr>)"
proof -
  have "runHttpNode sample_env sample_world i None retry_node False
     = ([Attempt 1, Sleep 100, Attempt 2], Inl (JsError ''AxiosError'' ''timeout''))"
    by (simp add: runHttpNode_def http_attempts.simps maxRetries_def backoff_def retry_node_def
        sample_world_def)
  then show "node_body sample_env sample_world False JUndefined JUndefined i retry_node outs
     = ([], Inl (JsError ''AxiosError'' ''timeout''))"
    by (simp add: node_body_def retry_node_def)
  show "node_body sample_env sample_world False JUndefined JUndefined i unknown_node outs
     = ([], Inr \<lparr>data = passed_input sample_env unknown_node outs, attempts = 1, fallbackUsed = False\<rparr>)"
    by (rule node_body_unknown) (simp_all add: unknown_node_facts)
qed

lemma two_node_ids:
  "node_id retry_node = ''n2_eta''" "node_id unknown_node = ''t9''"
  "node_type retry_node = ''http''" "node_type unknown_node = ''transform''"
  by (simp_all add: retry_node_def unknown_node_def)

lemma two_node_run:
  "map ns_status (nodes (run_prefix sample_env sample_world live_ctx JUndefined
      [retry_node, unknown_node] [\<lparr>edge_from = ''n2_eta'', edge_to = ''t9''\<rparr>] 2)) = [Failed, Completed]"
  "map fst (outputs (run_prefix sample_env sample_world live_ctx JUndefined
      [retry_node, unknown_node] [\<lparr>edge_from = ''n2_eta'', edge_to = ''t9''\<rparr>] 2)) = [''t9'']"
  by (simp_all add: run_prefix_def upt_2 live_ctx_def initial_state_def exec_node_def Let_def
      two_node_bodies two_node_ids mark_node_def mark_edges_def)

theorem nodes_run_in_order_witness:
  "spec_nodes two_node_spec = IsArray [retry_node, unknown_node]
   \<and> map ns_status (nodes (res_state (projr
         (executePipeline sample_env sample_world (Some two_node_spec) live_ctx)))) = [Failed, Completed]
   \<and> map event_tag (events (res_state (projr
         (executePipeline sample_env sample_world (Some two_node_spec) live_ctx))))
       = [(''n2_eta'', Running), (''n2_eta'', Failed), (''t9'', Running), (''t9'', Completed)]
   \<and> map event_statuses (events (res_state (projr
         (executePipeline sample_env sample_world (Some two_node_spec) live_ctx))))
       = [[Running, Pending], [Failed, Pending], [Failed, Running], [Failed, Completed]]"
proof -
  have n: "spec_nodes two_node_spec = IsArray [retry_node, unknown_node]"
    and e: "spec_edges two_node_spec = IsArray [\<lparr>edge_from = ''n2_eta'', edge_to = ''t9''\<rparr>]"
    by (simp_all add: two_node_spec_def)
  have st: "map ns_status (nodes (res_state (projr
         (executePipeline sample_env sample_world (Some two_node_spec) live_ctx)))) = [Failed, Completed]"
    unfolding executePipeline_run[OF n e] using two_node_run(1)
    by (simp add: two_node_spec_def numeral_2_eq_2)
  from nodes_run_in_order[OF n e, of sample_env sample_world live_ctx]
  obtain r where r: "executePipeline sample_env sample_world (Some two_node_spec) live_ctx = Inr r"
      "map event_tag (events (res_state r))
         = run_schedule (map node_id [retry_node, unknown_node]) (map ns_status (nodes (res_state r)))"
      "map event_statuses (events (res_state r))
         = run_snapshots (length [retry_node, unknown_node]) (map ns_status (nodes (res_state r)))"
    by blast
  have fin: "map ns_status (nodes (res_state r)) = [Failed, Completed]"
    using st by (simp add: r(1))
  show ?thesis
    using n r(2,3)
    by (simp add: r(1) fin two_node_ids run_schedule_def run_snapshots_def upt_2)
qed

lemma failed_step_keeps_outputs:
  assumes "i < length (nodes st)"
      and "ns_status (nodes (exec_node env w um cx og i st) ! i) = Failed"
  shows "outputs (exec_node env w um cx og i st) = outputs st"
proof -
  from exec_node_step[OF assms(1), of env w um cx og]
  obtain t v where tv:
      "map ns_status (nodes (exec_node env w um cx og i st)) = (map ns_status (nodes st))[i := t]"
      "outputs (exec_node env w um cx og i st)
        = (if t = Completed then obj_set (outputs st) (node_id (ns_node (nodes st ! i))) v
           else outputs st)"
    by blast
  have len: "length (nodes (exec_node env w um cx og i st)) = length (nodes st)"
    using tv(1) by (metis length_list_update length_map)
  have "ns_status (nodes (exec_node env w um cx og i st) ! i)
      = map ns_status (nodes (exec_node env w um cx og i st)) ! i"
    using assms(1) len by simp
  also have "\<dots> = t"
    using assms(1) by (simp add: tv(1))
  finally have "t = Failed"
    using assms(2) by simp
  then show ?thesis
    by (simp add: tv(2))
qed

lemma keys_final_outputs:
  "fst ` set (final_outputs outs) = fst ` set outs \<union> {''ranked_list'', ''correlation'', ''count''}"
  by (simp add: final_outputs_def Let_def fst_set_obj_set insert_commute)

text \<open>
  C10: when the ids of the nodes are distinct, the output store at the end of a run has
  an entry for the id of a node exactly when the node is completed, and it has no other
  entry; the outputs returned are the store and the three aggregates \<open>ranked_list\<close>,
  \<open>correlation\<close> and \<open>count\<close>; and a round of the loop that leaves its node failed leaves
  the store as it was.
\<close>

theorem failed_node_stores_nothing:
  assumes "spec_nodes s = IsArray ns" and "spec_edges s = IsArray es"
      and "distinct (map node_id ns)"
  shows "(\<exists>r. executePipeline env w (Some s) ctx = Inr r
      \<and> (\<forall>i<length ns. (node_id (ns ! i) \<in> fst ` set (outputs (res_state r)))
                          = (ns_status (nodes (res_state r) ! i) = Completed))
      \<and> fst ` set (outputs (res_state r)) \<subseteq> node_id ` set ns
      \<and> fst ` set (res_outputs r)
          = fst ` set (outputs (res_state r)) \<union> {''ranked_list'', ''correlation'', ''count''})
    \<and> (\<forall>st i um cx og. i < length (nodes st)
          \<and> ns_status (nodes (exec_node env w um cx og i st) ! i) = Failed
          \<longrightarrow> outputs (exec_node env w um cx og i st) = outputs st)"
proof -
  let ?st = "run_prefix env w ctx (spec_origin s) ns es (length ns)"
  note inv = run_prefix_complete[of env w ctx "spec_origin s" ns es]
  have nodes_eq: "map ns_node (nodes ?st) = ns"
    using inv by blast
  have len: "length (nodes ?st) = length ns"
    using nodes_eq by (metis length_map)
  have keys: "fst ` set (outputs ?st)
       = {node_id (ns ! i) | i. i < length ns \<and> map ns_status (nodes ?st) ! i = Completed}"
    using inv by blast
  have iff: "(node_id (ns ! i) \<in> fst ` set (outputs ?st)) = (ns_status (nodes ?st ! i) = Completed)"
    if i: "i < length ns" for i
  proof
    assume "node_id (ns ! i) \<in> fst ` set (outputs ?st)"
    then obtain j where j: "j < length ns" "node_id (ns ! j) = node_id (ns ! i)"
        "map ns_status (nodes ?st) ! j = Completed"
      unfolding keys by auto
    have "map node_id ns ! j = map node_id ns ! i"
      using j(1,2) i by simp
    then have "j = i"
      using nth_eq_iff_index_eq[OF assms(3), of j i] j(1) i by (metis length_map)
    then show "ns_status (nodes ?st ! i) = Completed"
      using j(3) i len by simp
  next
    assume "ns_status (nodes ?st ! i) = Completed"
    then have "map ns_status (nodes ?st) ! i = Completed"
      using i len by simp
    then show "node_id (ns ! i) \<in> fst ` set (outputs ?st)"
      unfolding keys using i by blast
  qed
  have sub: "fst ` set (outputs ?st) \<subseteq> node_id ` set ns"
    unfolding keys by auto
  have run: "\<exists>r. executePipeline env w (Some s) ctx = Inr r
      \<and> (\<forall>i<length ns. (node_id (ns ! i) \<in> fst ` set (outputs (res_state r)))
                          = (ns_status (nodes (res_state r) ! i) = Completed))
      \<and> fst ` set (outputs (res_state r)) \<subseteq> node_id ` set ns
      \<and> fst ` set (res_outputs r)
          = fst ` set (outputs (res_state r)) \<union> {''ranked_list'', ''correlation'', ''count''}"
    unfolding executePipeline_run[OF assms(1,2)]
    using iff sub by (simp add: keys_final_outputs)
  have step: "\<forall>st i um cx og. i < length (nodes st)
          \<and> ns_status (nodes (exec_node env w um cx og i st) ! i) = Failed
          \<longrightarrow> outputs (exec_node env w um cx og i st) = outputs st"
    by (intro allI impI) (erule conjE, rule failed_step_keeps_outputs)
  show ?thesis
    by (rule conjI[OF run step])
qed

theorem failed_node_stores_nothing_witness:
  "distinct (map node_id [retry_node, unknown_node])
   \<and> map ns_status (nodes (res_state (projr
         (executePipeline sample_env sample_world (Some two_node_spec) live_ctx)))) = [Failed, Completed]
   \<and> map fst (outputs (res_state (projr
         (executePipeline sample_env sample_world (Some two_node_spec) live_ctx)))) = [''t9'']
   \<and> fst ` set (res_outputs (projr
         (executePipeline sample_env sample_world (Some two_node_spec) live_ctx)))
       = {''t9'', ''ranked_list'', ''correlation'', ''count''}"
proof -
  have n: "spec_nodes two_node_spec = IsArray [retry_node, unknown_node]"
    and e: "spec_edges two_node_spec = IsArray [\<lparr>edge_from = ''n2_eta'', edge_to = ''t9''\<rparr>]"
    by (simp_all add: two_node_spec_def)
  have d: "distinct (map node_id [retry_node, unknown_node])"
    by (simp add: two_node_ids)
  have st: "map ns_status (nodes (res_state (projr
         (executePipeline sample_env sample_world (Some two_node_spec) live_ctx)))) = [Failed, Completed]"
    and ks: "map fst (outputs (res_state (projr
         (executePipeline sample_env sample_world (Some two_node_spec) live_ctx)))) = [''t9'']"
    unfolding executePipeline_run[OF n e] using two_node_run
    by (simp_all add: two_node_spec_def numeral_2_eq_2)
  have run: "executePipeline sample_env sample_world (Some two_node_spec) live_ctx
      = Inr (projr (executePipeline sample_env sample_world (Some two_node_spec) live_ctx))"
    unfolding executePipeline_run[OF n e] by simp
  from failed_node_stores_nothing[OF n e d, of sample_env sample_world live_ctx, THEN conjunct1]
  obtain r where r0: "executePipeline sample_env sample_world (Some two_node_spec) live_ctx = Inr r
      \<and> (\<forall>i<length [retry_node, unknown_node].
            (node_id ([retry_node, unknown_node] ! i) \<in> fst ` set (outputs (res_state r)))
              = (ns_status (nodes (res_state r) ! i) = Completed))
      \<and> fst ` set (outputs (res_state r)) \<subseteq> node_id ` set [retry_node, unknown_node]
      \<and> fst ` set (res_outputs r)
          = fst ` set (outputs (res_state r)) \<union> {''ranked_list'', ''correlation'', ''count''}"
    by (rule exE)
  note r = r0[THEN conjunct1] r0[THEN conjunct2, THEN conjunct2, THEN conjunct2]
  have pr: "projr (executePipeline sample_env sample_world (Some two_node_spec) live_ctx) = r"
    by (simp only: r(1) sum.sel)
  have "fst ` set (outputs (res_state r)) = set (map fst (outputs (res_state r)))"
    by (simp only: set_map)
  also have "\<dots> = {''t9''}"
    using ks unfolding pr by (simp only: list.set)
  finally have k: "fst ` set (outputs (res_state r)) = {''t9''}" .
  have ro: "fst ` set (res_outputs r) = {''t9'', ''ranked_list'', ''correlation'', ''count''}"
    unfolding r(2) k by (simp only: insert_is_Un[symmetric] Un_insert_left Un_empty_left)
  show ?thesis
    using d st ks ro unfolding pr by (intro conjI)
qed

section \<open>The merge of a fan-out\<close>

text \<open>
  \<open>call_attempts\<close> is the number of attempts the call of item \<open>j\<close> makes (a mock call
  counts as one); \<open>scoped_error\<close> is the entry of the error list for the failed item \<open>j\<close>;
  \<open>settled_attempts\<close> is what the merge loop adds to its maximum for a settled call.
\<close>

definition call_attempts :: "js_env \<Rightarrow> world \<Rightarrow> nat \<Rightarrow> node \<Rightarrow> bool \<Rightarrow> nat \<Rightarrow> nat" where
  "call_attempts env w i nd useMocks j =
     (if useMocks then 1 else attempts_made (fst (runHttpNode env w i (Some j) nd useMocks)))"

definition scoped_error :: "node \<Rightarrow> (js_error + http_result) list \<Rightarrow> nat \<Rightarrow> error_entry" where
  "scoped_error nd settled j =
     \<lparr>err_node_id = node_id nd @ ''['' @ dec j @ '']'', err_error = error_text (projl (settled ! j))\<rparr>"

definition settled_attempts :: "node \<Rightarrow> js_error + http_result \<Rightarrow> nat" where
  "settled_attempts nd s = (case s of Inr r \<Rightarrow> attempts r | Inl e \<Rightarrow> maxRetries nd + 1)"

text \<open>\<open>cells_ok cap Q m\<close>: every column of \<open>m\<close> has \<open>cap\<close> positions, and null at the
  positions that satisfy \<open>Q\<close>.\<close>

definition cells_ok :: "nat \<Rightarrow> (nat \<Rightarrow> bool) \<Rightarrow> (string \<times> jsval list) list \<Rightarrow> bool" where
  "cells_ok cap Q m =
     (\<forall>(k, col) \<in> set m. length col = cap \<and> (\<forall>j<cap. Q j \<longrightarrow> col ! j = JNull))"

lemma set_obj_set: "set (obj_set kvs k v) \<subseteq> insert (k, v) (set kvs)"
proof (induction kvs)
  case Nil
  show ?case by simp
next
  case (Cons p kvs)
  obtain a b where p: "p = (a, b)" by (cases p)
  show ?case
  proof (cases "a = k")
    case True
    then show ?thesis by (auto simp: p)
  next
    case False
    then show ?thesis using Cons by (auto simp: p)
  qed
qed

lemma cells_ok_mono:
  "cells_ok cap Q m \<Longrightarrow> (\<And>j. Q' j \<Longrightarrow> Q j) \<Longrightarrow> cells_ok cap Q' m"
  unfolding cells_ok_def by fast

lemma set_cell_ok:
  assumes "cells_ok cap Q m" and "j < cap" and "Q j \<longrightarrow> v = JNull"
  shows "cells_ok cap Q (set_cell cap j v k m)"
proof -
  define col where "col = (case map_of m k of None \<Rightarrow> replicate cap JNull | Some c \<Rightarrow> c)"
  have col: "length col = cap \<and> (\<forall>j'<cap. Q j' \<longrightarrow> col ! j' = JNull)"
  proof (cases "map_of m k")
    case None
    then show ?thesis by (simp add: col_def)
  next
    case (Some c)
    then have "(k, c) \<in> set m" by (rule map_of_SomeD)
    then show ?thesis using assms(1) Some by (auto simp: col_def cells_ok_def)
  qed
  have new: "length (col[j := v]) = cap \<and> (\<forall>j'<cap. Q j' \<longrightarrow> (col[j := v]) ! j' = JNull)"
    using col assms(2,3) by (auto simp: nth_list_update)
  have "set (set_cell cap j v k m) \<subseteq> insert (k, col[j := v]) (set m)"
    unfolding set_cell_def col_def[symmetric] by (rule set_obj_set)
  then show ?thesis
    using assms(1) new unfolding cells_ok_def by blast
qed

lemma fold_set_cell_entries_ok:
  assumes "cells_ok cap Q m" and "j < cap" and "\<not> Q j"
  shows "cells_ok cap Q (fold (\<lambda>(k, val). set_cell cap j (g val) k) es m)"
  using assms(1)
proof (induction es arbitrary: m)
  case Nil
  then show ?case by simp
next
  case (Cons e es)
  obtain k val where e: "e = (k, val)" by (cases e)
  have "cells_ok cap Q (set_cell cap j (g val) k m)"
    by (rule set_cell_ok[OF Cons.prems assms(2)]) (simp add: assms(3))
  from Cons.IH[OF this] show ?case by (simp add: e)
qed

lemma fold_set_cell_null_ok:
  assumes "cells_ok cap Q m" and "j < cap"
  shows "cells_ok cap Q (fold (set_cell cap j JNull) ks m)"
  using assms(1)
proof (induction ks arbitrary: m)
  case Nil
  then show ?case by simp
next
  case (Cons k ks)
  have "cells_ok cap Q (set_cell cap j JNull k m)"
    by (rule set_cell_ok[OF Cons.prems assms(2)]) simp
  from Cons.IH[OF this] show ?case by simp
qed

text \<open>The accumulator after the first \<open>k\<close> rounds of the merge loop.\<close>

definition merge_prefix :: "node \<Rightarrow> nat \<Rightarrow> (js_error + http_result) list \<Rightarrow> nat \<Rightarrow> fanout_acc" where
  "merge_prefix nd cap settled k =
     fold (\<lambda>j. merge_settled nd cap j (settled ! j)) [0..<k]
       \<lparr>merged = [], fan_errors = [], maxAttempts = 1, anyFallback = False\<rparr>"

lemma merge_prefix_Suc:
  "merge_prefix nd cap settled (Suc k)
     = merge_settled nd cap k (settled ! k) (merge_prefix nd cap settled k)"
  by (simp add: merge_prefix_def)

lemma Max_attempts_Suc:
  fixes f :: "nat \<Rightarrow> nat"
  shows "Max (insert 1 (f ` {..<Suc k})) = max (Max (insert 1 (f ` {..<k}))) (f k)"
proof -
  have "insert 1 (f ` {..<Suc k}) = insert (f k) (insert 1 (f ` {..<k}))"
    by (auto simp: lessThan_Suc)
  then show ?thesis
    by (simp add: max.commute)
qed

lemma merge_prefix_invariant:
  assumes "k \<le> cap"
  shows "cells_ok cap (\<lambda>j. k \<le> j \<or> isl (settled ! j)) (merged (merge_prefix nd cap settled k))
    \<and> fan_errors (merge_prefix nd cap settled k)
        = map (scoped_error nd settled) (filter (\<lambda>j. isl (settled ! j)) [0..<k])
    \<and> maxAttempts (merge_prefix nd cap settled k)
        = Max (insert 1 ((\<lambda>j. settled_attempts nd (settled ! j)) ` {..<k}))"
  using assms
proof (induction k)
  case 0
  show ?case
    by (simp add: merge_prefix_def cells_ok_def)
next
  case (Suc k)
  let ?acc = "merge_prefix nd cap settled k"
  let ?Q = "\<lambda>j. Suc k \<le> j \<or> isl (settled ! j)"
  have kc: "k < cap" using Suc.prems by simp
  from Suc have ih:
      "cells_ok cap (\<lambda>j. k \<le> j \<or> isl (settled ! j)) (merged ?acc)"
      "fan_errors ?acc = map (scoped_error nd settled) (filter (\<lambda>j. isl (settled ! j)) [0..<k])"
      "maxAttempts ?acc = Max (insert 1 ((\<lambda>j. settled_attempts nd (settled ! j)) ` {..<k}))"
    by simp_all
  have weak: "cells_ok cap ?Q (merged ?acc)"
    by (rule cells_ok_mono[OF ih(1)]) auto
  show ?case
  proof (cases "settled ! k")
    case (Inr r)
    have m: "cells_ok cap ?Q (merged (merge_settled nd cap k (Inr r) ?acc))"
      using fold_set_cell_entries_ok[OF weak kc, of "\<lambda>val. if isArray val then js_at val 0 else val"
          "own_entries (or_else (data r) (JObj []))"] Inr
      by (simp add: merge_settled_def)
    have e: "fan_errors (merge_settled nd cap k (Inr r) ?acc)
        = map (scoped_error nd settled) (filter (\<lambda>j. isl (settled ! j)) [0..<Suc k])"
      using Inr by (simp add: merge_settled_def ih(2))
    have a: "maxAttempts (merge_settled nd cap k (Inr r) ?acc)
        = Max (insert 1 ((\<lambda>j. settled_attempts nd (settled ! j)) ` {..<Suc k}))"
      unfolding Max_attempts_Suc using Inr
      by (simp add: merge_settled_def ih(3) settled_attempts_def)
    show ?thesis
      unfolding merge_prefix_Suc Inr using m e a by blast
  next
    case (Inl err)
    have m: "cells_ok cap ?Q (merged (merge_settled nd cap k (Inl err) ?acc))"
      using fold_set_cell_null_ok[OF weak kc,
          of "case node_map nd of None \<Rightarrow> [] | Some kps \<Rightarrow> map fst kps"]
      by (simp add: merge_settled_def)
    have e: "fan_errors (merge_settled nd cap k (Inl err) ?acc)
        = map (scoped_error nd settled) (filter (\<lambda>j. isl (settled ! j)) [0..<Suc k])"
      using Inl by (simp add: merge_settled_def ih(2) scoped_error_def)
    have a: "maxAttempts (merge_settled nd cap k (Inl err) ?acc)
        = Max (insert 1 ((\<lambda>j. settled_attempts nd (settled ! j)) ` {..<Suc k}))"
      unfolding Max_attempts_Suc using Inl
      by (simp add: merge_settled_def ih(3) settled_attempts_def)
    show ?thesis
      unfolding merge_prefix_Suc Inl using m e a by blast
  qed
qed

lemma settled_attempts_made:
  "settled_attempts nd (snd (runHttpNode env w i (Some j) nd useMocks))
     = call_attempts env w i nd useMocks j"
proof (cases useMocks)
  case True
  then show ?thesis
    by (simp add: settled_attempts_def call_attempts_def runHttpNode_def)
next
  case False
  obtain m where m: "0 < m"
      "is_failure (respond w i (Some j) m) \<longrightarrow> m = maxRetries nd + 1"
      "http_attempts env w i (Some j) nd 0 = (retry_segment nd 0 m, attempt_result env w i (Some j) nd m)"
    using http_attempts_shape[of 0 nd w i "Some j" env] by auto
  have cnt: "attempts_made (retry_segment nd 0 m) = m"
    using attempts_made_segment[OF m(1), of nd] by simp
  have "settled_attempts nd (attempt_result env w i (Some j) nd m) = m"
    using m(2) by (cases "respond w i (Some j) m") (simp_all add: settled_attempts_def attempt_result_def)
  then show ?thesis
    using False by (simp add: call_attempts_def runHttpNode_def m(3) cnt)
qed

lemma fanout_settled_nth:
  "length (fanout_settled env w um i nd cap) = cap
   \<and> (\<forall>j<cap. fanout_settled env w um i nd cap ! j = snd (runHttpNode env w i (Some j) nd um))"
  by (simp add: fanout_settled_def)

lemma fanout_merge_prefix:
  "length settled = cap \<Longrightarrow> fanout_merge nd cap settled = merge_prefix nd cap settled cap"
  by (simp add: fanout_merge_def merge_prefix_def)

text \<open>
  C4, as amended: for an HTTP node with a fan-out over a collection of \<open>L\<close> items, the
  number of calls is \<open>min max L\<close> when \<open>max\<close> is at least 1, and \<open>L\<close> when \<open>max\<close> is absent
  or 0; each call is settled on its own; every column of the merged output has one
  position per call, null at the position of every failed call; the failed calls
  contribute, in order, one error entry each, under \<open>nodeId[index]\<close>; and the attempt
  count the node reports is the largest number of attempts of a call (1 when there is no
  call).
\<close>

theorem fanout_merge_columns:
  assumes "node_type nd = ''http''" and "node_fanout nd = Some f" and "truthy (fanout_over f)"
      and "L = length (fanout_base env (run_scope outs context origin) f)"
      and "cap = fanout_cap f L"
      and "settled = fanout_settled env w um i nd cap"
      and "acc = fanout_merge nd cap settled"
  shows "(\<forall>m. fanout_max f = Some m \<and> 1 \<le> m \<longrightarrow> cap = min m L)
    \<and> (fanout_max f = None \<or> fanout_max f = Some 0 \<longrightarrow> cap = L)
    \<and> length settled = cap
    \<and> (\<forall>j<cap. settled ! j = snd (runHttpNode env w i (Some j) nd um))
    \<and> (\<forall>(k, col) \<in> set (merged acc).
          length col = cap \<and> (\<forall>j<cap. isl (settled ! j) \<longrightarrow> col ! j = JNull))
    \<and> fan_errors acc = map (scoped_error nd settled) (filter (\<lambda>j. isl (settled ! j)) [0..<cap])
    \<and> maxAttempts acc = Max (insert 1 (call_attempts env w i nd um ` {..<cap}))
    \<and> node_body env w um context origin i nd outs
        = (fan_errors acc,
           Inr \<lparr>data = JObj (map (\<lambda>(k, col). (k, JArr col)) (merged acc)),
                attempts = maxAttempts acc, fallbackUsed = anyFallback acc\<rparr>)"
proof -
  have c1: "\<forall>m. fanout_max f = Some m \<and> 1 \<le> m \<longrightarrow> cap = min m L"
    by (auto simp: assms(5) fanout_cap_def)
  have c2: "fanout_max f = None \<or> fanout_max f = Some 0 \<longrightarrow> cap = L"
    by (auto simp: assms(5) fanout_cap_def)
  have len: "length settled = cap"
    and nth: "\<forall>j<cap. settled ! j = snd (runHttpNode env w i (Some j) nd um)"
    unfolding assms(6) using fanout_settled_nth[of env w um i nd cap] by blast+
  note inv = merge_prefix_invariant[OF le_refl, of cap settled nd]
  have acc: "acc = merge_prefix nd cap settled cap"
    unfolding assms(7) by (rule fanout_merge_prefix[OF len])
  have cells: "cells_ok cap (\<lambda>j. cap \<le> j \<or> isl (settled ! j)) (merged acc)"
    unfolding acc using inv by blast
  have c5: "\<forall>(k, col) \<in> set (merged acc).
          length col = cap \<and> (\<forall>j<cap. isl (settled ! j) \<longrightarrow> col ! j = JNull)"
    using cells unfolding cells_ok_def by fast
  have c6: "fan_errors acc = map (scoped_error nd settled) (filter (\<lambda>j. isl (settled ! j)) [0..<cap])"
    unfolding acc using inv by blast
  have "(\<lambda>j. settled_attempts nd (settled ! j)) ` {..<cap} = call_attempts env w i nd um ` {..<cap}"
    by (rule image_cong[OF refl]) (simp add: nth settled_attempts_made)
  then have c7: "maxAttempts acc = Max (insert 1 (call_attempts env w i nd um ` {..<cap}))"
    unfolding acc using inv by simp
  have c8: "node_body env w um context origin i nd outs
        = (fan_errors acc,
           Inr \<lparr>data = JObj (map (\<lambda>(k, col). (k, JArr col)) (merged acc)),
                attempts = maxAttempts acc, fallbackUsed = anyFallback acc\<rparr>)"
    using assms(1,2,3) by (simp add: node_body_def Let_def assms(4,5,6,7))
  from c1 c2 len nth c5 c6 c7 c8 show ?thesis
    by (intro conjI)
qed

text \<open>The fan-out scenario: five items, a cap of three, and a world in which the call of
  item 1 times out.\<close>

definition fan_spec :: fanout_spec where
  "fan_spec = \<lparr>fanout_over = JStr ''outputs.a'', fanout_max = Some 3, fanout_mapping = []\<rparr>"

definition fan_node :: node where
  "fan_node =
     \<lparr> node_id = ''n3_weather'', node_type = ''http'', node_fn = [], node_args = JUndefined,
       node_retry = None, node_fallback = False, node_map = None, node_fanout = Some fan_spec \<rparr>"

definition fan_outs :: "(string \<times> jsval) list" where
  "fan_outs = [(''a'', JArr [JObj [], JObj [], JObj [], JObj [], JObj []])]"

definition fan_world :: world where
  "fan_world =
     \<lparr> respond = (\<lambda>i j n. if j = Some 1 then Fails (JsError ''AxiosError'' ''timeout'')
                              else Responds (JObj [(''temp'', JNum 20)])),
       jitter = (\<lambda>i j. 0),
       mock_weather = (\<lambda>i j. JObj []),
       elapsed = (\<lambda>i. 0) \<rparr>"

lemma fan_base_length:
  "length (fanout_base sample_env (run_scope fan_outs JUndefined JUndefined) f) = 5"
  if "fanout_over f = JStr ''outputs.a''"
  using that
  by (simp add: fanout_base_def run_scope_def fan_outs_def resolve_path_def starts_with_def
      or_else_def)

lemma fan_calls:
  "snd (runHttpNode sample_env fan_world i (Some j) fan_node False)
     = (if j = 1 then Inl (JsError ''AxiosError'' ''timeout'')
        else Inr \<lparr>data = JObj [(''temp'', JNum 20)], attempts = 1, fallbackUsed = False\<rparr>)"
  by (simp add: runHttpNode_def http_attempts.simps maxRetries_def fan_node_def fan_world_def
      applyMap_def)

lemma fan_settled:
  "fanout_settled sample_env fan_world False 0 fan_node 3
     = [Inr \<lparr>data = JObj [(''temp'', JNum 20)], attempts = 1, fallbackUsed = False\<rparr>,
        Inl (JsError ''AxiosError'' ''timeout''),
        Inr \<lparr>data = JObj [(''temp'', JNum 20)], attempts = 1, fallbackUsed = False\<rparr>]"
  by (simp add: fanout_settled_def upt_3 fan_calls)

lemma dec_1: "dec (Suc 0) = ''1''"
  by (simp add: dec.simps digit_char_def)

lemma fan_merge:
  "fanout_merge fan_node 3 (fanout_settled sample_env fan_world False 0 fan_node 3)
     = \<lparr> merged = [(''temp'', [JNum 20, JNull, JNum 20])],
         fan_errors = [\<lparr>err_node_id = ''n3_weather[1]'', err_error = ''timeout''\<rparr>],
         maxAttempts = 1, anyFallback = False \<rparr>"
  unfolding fan_settled
  by (simp add: fanout_merge_def upt_3 merge_settled_def set_cell_def or_else_def maxRetries_def
      fan_node_def dec_1 numeral_3_eq_3)

theorem fanout_merge_columns_witness:
  "fanout_max fan_spec = Some 3
   \<and> length (fanout_base sample_env (run_scope fan_outs JUndefined JUndefined) fan_spec) = 5
   \<and> fanout_cap fan_spec 5 = 3
   \<and> isl (fanout_settled sample_env fan_world False 0 fan_node 3 ! 1)
   \<and> node_body sample_env fan_world False JUndefined JUndefined 0 fan_node fan_outs
       = ([\<lparr>err_node_id = ''n3_weather[1]'', err_error = ''timeout''\<rparr>],
          Inr \<lparr>data = JObj [(''temp'', JArr [JNum 20, JNull, JNum 20])],
               attempts = 1, fallbackUsed = False\<rparr>)"
proof -
  have f: "node_type fan_node = ''http''" "node_fanout fan_node = Some fan_spec"
      "truthy (fanout_over fan_spec)" "fanout_max fan_spec = Some 3"
    by (simp_all add: fan_node_def fan_spec_def)
  have L: "5 = length (fanout_base sample_env (run_scope fan_outs JUndefined JUndefined) fan_spec)"
    by (simp add: fan_base_length fan_spec_def)
  have cap: "3 = fanout_cap fan_spec 5"
    by (simp add: fanout_cap_def fan_spec_def)
  have fl: "isl (fanout_settled sample_env fan_world False 0 fan_node 3 ! 1)"
    by (simp add: fan_settled)
  from fanout_merge_columns[OF f(1,2,3) L cap refl refl, of fan_world False 0]
  have "node_body sample_env fan_world False JUndefined JUndefined 0 fan_node fan_outs
        = (fan_errors (fanout_merge fan_node 3 (fanout_settled sample_env fan_world False 0 fan_node 3)),
           Inr \<lparr>data = JObj (map (\<lambda>(k, col). (k, JArr col))
                    (merged (fanout_merge fan_node 3 (fanout_settled sample_env fan_world False 0 fan_node 3)))),
                attempts = maxAttempts (fanout_merge fan_node 3 (fanout_settled sample_env fan_world False 0 fan_node 3)),
                fallbackUsed = anyFallback (fanout_merge fan_node 3 (fanout_settled sample_env fan_world False 0 fan_node 3))\<rparr>)"
    by (elim conjE)
  then have "node_body sample_env fan_world False JUndefined JUndefined 0 fan_node fan_outs
       = ([\<lparr>err_node_id = ''n3_weather[1]'', err_error = ''timeout''\<rparr>],
          Inr \<lparr>data = JObj [(''temp'', JArr [JNum 20, JNull, JNum 20])],
               attempts = 1, fallbackUsed = False\<rparr>)"
    by (simp add: fan_merge)
  then show ?thesis
    using f(4) L[symmetric] cap[symmetric] fl by (intro conjI)
qed

text \<open>
  C4, as stated, fails for the cap 0: \<open>min 0 5\<close> is 0, and the code calls all five items.
\<close>

theorem fanout_zero_cap_calls_all:
  "length (fanout_base sample_env (run_scope fan_outs JUndefined JUndefined)
            (fan_spec\<lparr>fanout_max := Some 0\<rparr>)) = 5
   \<and> min 0 (5::nat) = 0
   \<and> fanout_cap (fan_spec\<lparr>fanout_max := Some 0\<rparr>) 5 = 5
   \<and> length (fanout_settled sample_env fan_world False 0
               (fan_node\<lparr>node_fanout := Some (fan_spec\<lparr>fanout_max := Some 0\<rparr>)\<rparr>)
               (fanout_cap (fan_spec\<lparr>fanout_max := Some 0\<rparr>) 5)) = 5"
  by (simp add: fan_base_length fan_spec_def fanout_cap_def fanout_settled_def)

end
